theory Spec2Isabelle
  imports Complex_Main
begin

section \<open>The survey table\<close>

text \<open>
  \<^verbatim>\<open>process_survey.py\<close> reads a Qualtrics export with pandas and works on the columns
  named below. A cell of a text column is \<open>None\<close> where pandas holds NaN (a missing
  value) and \<open>Some s\<close> where it holds the string \<open>s\<close>.

  Two kinds of cell are kept in the form pandas' own parsers give them, because the
  parsers are library code: the submission timestamp, as \<^verbatim>\<open>pd.to_datetime\<close> reads it,
  and the five allocation fields, as \<^verbatim>\<open>pd.to_numeric(..., errors="coerce")\<close> reads them.
\<close>

text \<open>A timestamp: year, month, day, and the time of day in nanoseconds.\<close>

type_synonym timestamp = "nat \<times> nat \<times> nat \<times> nat"

datatype start_date =
    Missing            \<comment> \<open>NaN in the export; \<^verbatim>\<open>pd.to_datetime\<close> makes it NaT\<close>
  | Malformed          \<comment> \<open>text that \<^verbatim>\<open>pd.to_datetime\<close> rejects by raising\<close>
  | At timestamp       \<comment> \<open>text that parses to this timestamp\<close>

record row =
  StartDate :: start_date
  Country :: "string option"
  Age :: "string option"
  Education :: "string option"
  is_oecd :: "string option"
  is_lmic :: "string option"
  Attention_Check :: "string option"
  Q3_1 :: "string option"
  Q3_2 :: "string option"
  Q4_1 :: "string option"
  Q7_1 :: "string option"
  Q7_2 :: "string option"
  Q7_3 :: "string option"
  Q7_4 :: "string option"
  Q7_5 :: "string option"
  Q7_6 :: "string option"
  Q7_7 :: "string option"
  Q7_8_1 :: "rat option"    \<comment> \<open>\<open>None\<close>: missing or not a number (NaN after coercion)\<close>
  Q7_8_7 :: "rat option"
  Q7_8_8 :: "rat option"
  Q7_8_9 :: "rat option"
  Q7_8_10 :: "rat option"

datatype error =
    ValueError         \<comment> \<open>raised by \<^verbatim>\<open>pd.to_datetime\<close> on text it cannot parse\<close>
  | KeyError string    \<comment> \<open>raised by a dictionary lookup of a key that is absent\<close>

section \<open>Filtering constants\<close>

definition ATTENTION_ANSWER :: string where
  "ATTENTION_ANSWER = ''7''"

text \<open>\<^verbatim>\<open>DATE_CUTOFF = "2026-01-15"\<close>, which pandas compares as midnight of that day.\<close>

definition DATE_CUTOFF :: timestamp where
  "DATE_CUTOFF = (2026, 1, 15, 0)"

definition MIN_COUNTRY_N :: nat where
  "MIN_COUNTRY_N = 100"

fun ts_ge :: "timestamp \<Rightarrow> timestamp \<Rightarrow> bool" where
  "ts_ge (y, m, d, t) (y', m', d', t') =
     (y > y' \<or> (y = y' \<and> (m > m' \<or> (m = m' \<and> (d > d' \<or> (d = d' \<and> t \<ge> t'))))))"

section \<open>Text helpers\<close>

fun starts_with :: "'a list \<Rightarrow> 'a list \<Rightarrow> bool" where
  "starts_with [] s = True"
| "starts_with (p # ps) [] = False"
| "starts_with (p # ps) (c # cs) = (p = c \<and> starts_with ps cs)"

text \<open>\<open>str_contains pat s\<close>: the text \<open>pat\<close> occurs in \<open>s\<close> (Python's \<^verbatim>\<open>pat in s\<close>).\<close>

fun str_contains :: "'a list \<Rightarrow> 'a list \<Rightarrow> bool" where
  "str_contains pat [] = (pat = [])"
| "str_contains pat (c # cs) = (starts_with pat (c # cs) \<or> str_contains pat cs)"

section \<open>load_and_filter\<close>

text \<open>
  The argument is the data frame that \<^verbatim>\<open>pd.read_csv\<close> returns: the rows of the file
  below its header line. The progress lines that the function prints are left out.
\<close>

text \<open>\<^verbatim>\<open>data = df.iloc[1:].copy()\<close>: the first row holds the question labels.\<close>

definition skip_label_row :: "row list \<Rightarrow> row list" where
  "skip_label_row df = drop 1 df"

text \<open>\<^verbatim>\<open>data["Q3.1"].str.contains("ImportId", na=False)\<close>\<close>

definition is_import_row :: "row \<Rightarrow> bool" where
  "is_import_row r = (case Q3_1 r of None \<Rightarrow> False | Some s \<Rightarrow> str_contains ''ImportId'' s)"

definition drop_import_rows :: "row list \<Rightarrow> row list" where
  "drop_import_rows data = filter (\<lambda>r. \<not> is_import_row r) data"

text \<open>
  \<^verbatim>\<open>data["StartDate"] = pd.to_datetime(data["StartDate"])\<close> raises when any remaining
  row has a timestamp it cannot parse, and the run ends there.
\<close>

definition to_datetime :: "row list \<Rightarrow> error + row list" where
  "to_datetime data =
     (if list_ex (\<lambda>r. StartDate r = Malformed) data then Inl ValueError else Inr data)"

text \<open>\<^verbatim>\<open>data[data["StartDate"] >= DATE_CUTOFF]\<close>: NaT compares false.\<close>

definition on_or_after_cutoff :: "row \<Rightarrow> bool" where
  "on_or_after_cutoff r =
     (case StartDate r of At t \<Rightarrow> ts_ge t DATE_CUTOFF | _ \<Rightarrow> False)"

definition date_filter :: "row list \<Rightarrow> row list" where
  "date_filter data = filter on_or_after_cutoff data"

text \<open>\<^verbatim>\<open>data[data["Attention Check"] == ATTENTION_ANSWER]\<close>\<close>

definition attention_filter :: "row list \<Rightarrow> row list" where
  "attention_filter data = filter (\<lambda>r. Attention_Check r = Some ATTENTION_ANSWER) data"

text \<open>The three filters that look at a row's content, in the order of the source.\<close>

definition row_filters :: "row list \<Rightarrow> error + row list" where
  "row_filters data =
     (case to_datetime (drop_import_rows data) of
        Inl e \<Rightarrow> Inl e
      | Inr parsed \<Rightarrow> Inr (attention_filter (date_filter parsed)))"

definition load_and_filter :: "row list \<Rightarrow> error + row list" where
  "load_and_filter df = row_filters (skip_label_row df)"




section \<open>Grouping constants\<close>

definition AGE_GROUPS :: "string list" where
  "AGE_GROUPS =
    [''18-24 years old'', ''25-34 years old'', ''35-44 years old'',
     ''45-54 years old'', ''55-64 years old'', ''65+ years old'']"

text \<open>The dictionaries of the source are association lists, read with \<open>map_of\<close>.\<close>

definition AGE_SHORT :: "(string \<times> string) list" where
  "AGE_SHORT =
    [(''18-24 years old'', ''18-24''), (''25-34 years old'', ''25-34''),
     (''35-44 years old'', ''35-44''), (''45-54 years old'', ''45-54''),
     (''55-64 years old'', ''55-64''), (''65+ years old'', ''65+'')]"

definition EDU_GROUPS :: "(string \<times> string) list" where
  "EDU_GROUPS =
    [(''Graduate or professional degree (MA, MS, MBA, PhD, Law Degree, Medical Degree etc)'',
      ''Graduate degree''),
     (''University - Bachelors Degree'', ''Bachelor's degree''),
     (''Some University but no degree'', ''Some university''),
     (''Vocational or Similar'', ''Vocational''),
     (''Secondary'', ''Secondary'')]"

definition EDU_MERGE :: "(string \<times> string) list" where
  "EDU_MERGE =
    [(''Some Secondary'', ''Less than secondary''),
     (''Primary'', ''Less than secondary''),
     (''Less than Primary'', ''Less than secondary'')]"

definition EDU_SHORT_ORDER :: "string list" where
  "EDU_SHORT_ORDER = map snd EDU_GROUPS @ [''Less than secondary'']"

definition COUNTRY_SHORT :: "(string \<times> string) list" where
  "COUNTRY_SHORT =
    [(''United States of America'', ''United States''),
     (''United Kingdom of Great Britain and Northern Ireland'', ''United Kingdom''),
     (''United Arab Emirates'', ''UAE''),
     (''Congo, Democratic Republic of the'', ''DR Congo''),
     (''Iran (Islamic Republic of)'', ''Iran''),
     (''Bolivia (Plurinational State of)'', ''Bolivia''),
     (''Venezuela (Bolivarian Republic of)'', ''Venezuela''),
     (''Tanzania, United Republic of'', ''Tanzania''),
     (''Korea, Republic of'', ''South Korea''),
     (''Lao People's Democratic Republic'', ''Laos''),
     (''Viet Nam'', ''Vietnam''),
     (''Russian Federation'', ''Russia''),
     (''Moldova, Republic of'', ''Moldova''),
     (''Syrian Arab Republic'', ''Syria''),
     (''Micronesia (Federated States of)'', ''Micronesia'')]"

definition Q31_OPTIONS :: "string list" where
  "Q31_OPTIONS =
    [''Climate change is happening'', ''Climate change is not happening'', ''Not sure'']"

definition Q32_OPTIONS :: "string list" where
  "Q32_OPTIONS =
    [''Caused by human activities'',
     ''Caused by natural changes in the environment'',
     ''Caused by a mix of human activities and natural changes in the environment'',
     ''I don't know'']"

definition Q41_OPTIONS :: "string list" where
  "Q41_OPTIONS =
    [''Strongly agree'', ''Somewhat agree'', ''Neither agree nor disagree'',
     ''Somewhat disagree'', ''Strongly disagree'']"

definition Q77_FULL_OPTIONS :: "string list" where
  "Q77_FULL_OPTIONS =
    [''Given to poor country governments without restrictions'',
     ''Given directly to people in poor countries'',
     ''Put in an insurance fund for disasters (like droughts and hurricanes)'',
     ''Given to poor country governments and communities for climate resilience investments (like seawalls and air conditioning)'',
     ''Put in a fund for climate resilience investments that people can apply to, controlled by rich countries'']"


text \<open>\<^verbatim>\<open>Q78_COLS\<close>: the five allocation columns, as the accessors of their fields.\<close>

definition Q78_COLS :: "(row \<Rightarrow> rat option) list" where
  "Q78_COLS = [Q7_8_1, Q7_8_7, Q7_8_8, Q7_8_9, Q7_8_10]"



section \<open>get_country_info\<close>

record country_info =
  c_id :: string
  c_name :: string
  full_name :: string
  c_group :: string
  c_n :: nat

text \<open>\<^verbatim>\<open>int((series == v).sum())\<close>: NaN equals nothing.\<close>

definition count_eq :: "string option list \<Rightarrow> string \<Rightarrow> nat" where
  "count_eq series v = length (filter (\<lambda>x. x = Some v) series)"

definition dropna :: "'a option list \<Rightarrow> 'a list" where
  "dropna series = concat (map (\<lambda>x. case x of None \<Rightarrow> [] | Some v \<Rightarrow> [v]) series)"

text \<open>
  \<^verbatim>\<open>Series.value_counts()\<close>: the distinct values that are not NaN, each with the number
  of rows that hold it, largest count first. Values with equal counts are listed in the
  order of their first appearance, which is a choice of this model: pandas promises no
  order among them, and nothing below depends on it.
\<close>

definition value_counts :: "string option list \<Rightarrow> (string \<times> nat) list" where
  "value_counts series =
     sort_key (\<lambda>p. - int (snd p))
       (map (\<lambda>v. (v, count_eq series v)) (rev (remdups (rev (dropna series)))))"

definition country_rows :: "row list \<Rightarrow> string \<Rightarrow> row list" where
  "country_rows data country_name = filter (\<lambda>r. Country r = Some country_name) data"

text \<open>\<^verbatim>\<open>COUNTRY_SHORT.get(country_name, country_name)\<close>\<close>

definition country_short :: "string \<Rightarrow> string" where
  "country_short country_name =
     (case map_of COUNTRY_SHORT country_name of None \<Rightarrow> country_name | Some s \<Rightarrow> s)"

definition country_group :: "row list \<Rightarrow> string \<Rightarrow> string" where
  "country_group data country_name =
     (let oecd = list_ex (\<lambda>r. is_oecd r = Some ''True'') (country_rows data country_name);
          lmic = list_ex (\<lambda>r. is_lmic r = Some ''True'') (country_rows data country_name)
      in if oecd then ''oecd'' else if lmic then ''lmic'' else ''other'')"

fun country_loop :: "row list \<Rightarrow> (string \<times> nat) list \<Rightarrow> country_info list" where
  "country_loop data [] = []"
| "country_loop data ((country_name, k) # rest) =
     (if k \<ge> MIN_COUNTRY_N
      then \<lparr> c_id = country_short country_name, c_name = country_short country_name,
             full_name = country_name, c_group = country_group data country_name,
             c_n = k \<rparr> # country_loop data rest
      else country_loop data rest)"

definition get_country_info :: "row list \<Rightarrow> country_info list" where
  "get_country_info data = country_loop data (value_counts (map Country data))"

section \<open>Per-question counts\<close>

definition count_yes_no :: "string option list \<Rightarrow> nat list" where
  "count_yes_no series = [count_eq series ''Yes'', count_eq series ''No'']"

definition count_options :: "string option list \<Rightarrow> string list \<Rightarrow> nat list" where
  "count_options series options = map (\<lambda>opt. count_eq series opt) options"

text \<open>\<^verbatim>\<open>series.str.contains(full_opt, na=False, regex=False)\<close>\<close>

definition contains_opt :: "string \<Rightarrow> string option \<Rightarrow> bool" where
  "contains_opt full_opt x = (case x of None \<Rightarrow> False | Some s \<Rightarrow> str_contains full_opt s)"

definition count_q77 :: "string option list \<Rightarrow> nat list" where
  "count_q77 series =
     map (\<lambda>full_opt. length (filter (contains_opt full_opt) series)) Q77_FULL_OPTIONS"

section \<open>mean_q78\<close>

text \<open>
  The allocation figures are 64-bit floats in the source. Here they are rationals, and
  the sum and the division are exact. \<open>round1\<close> stands for \<^verbatim>\<open>round(x, 1)\<close> and gives
  the multiple of one tenth nearest to the exact value, a tie going to the even one.
  Python rounds the binary double instead, so the two differ where the exact mean lies
  halfway between two tenths and its double does not: for a mean of 1/20 this function
  gives 0 and Python gives 0.1, for 9/20 it gives 0.4 and Python gives 0.5. Both results
  are multiples of one tenth within one twentieth of the mean. Infinite values and the
  rounding error of float addition are outside this model.
\<close>

definition answered_q77 :: "row \<Rightarrow> bool" where
  "answered_q77 r = (Q7_7 r \<noteq> None \<and> Q7_7 r \<noteq> Some '''')"

definition fillna0 :: "rat option \<Rightarrow> rat" where
  "fillna0 v = (case v of None \<Rightarrow> 0 | Some x \<Rightarrow> x)"

definition mean :: "rat list \<Rightarrow> rat" where
  "mean values = sum_list values / of_nat (length values)"

definition round_half_even :: "rat \<Rightarrow> int" where
  "round_half_even y =
     (let f = \<lfloor>y\<rfloor>; d = y - of_int f
      in if d < 1 / 2 then f else if d > 1 / 2 then f + 1
         else if even f then f else f + 1)"

definition round1 :: "rat \<Rightarrow> rat" where
  "round1 x = of_int (round_half_even (10 * x)) / 10"

definition mean_q78 :: "row list \<Rightarrow> rat list \<times> nat" where
  "mean_q78 sub =
     (let has_q77 = filter answered_q77 sub
      in if length has_q77 = 0 then (replicate (length Q78_COLS) 0, 0)
         else (map (\<lambda>col. round1 (mean (map (\<lambda>r. fillna0 (col r)) has_q77))) Q78_COLS,
               length has_q77))"

section \<open>aggregate_cell\<close>

record cell =
  cell_n :: nat
  q71 :: "nat list"
  q31 :: "nat list"
  q32 :: "nat list"
  q41 :: "nat list"
  q72 :: "nat list"
  q73 :: "nat list"
  q74 :: "nat list"
  q75 :: "nat list"
  q76 :: "nat list"
  n_q76 :: nat
  q77 :: "nat list"
  n_q77 :: int
  q78 :: "rat list"
  n_q78 :: nat

text \<open>\<^verbatim>\<open>int(subset["Q7.7"].notna().sum() - (subset["Q7.7"] == "").sum())\<close>\<close>

definition count_answered_q77 :: "string option list \<Rightarrow> int" where
  "count_answered_q77 series =
     int (length (filter (\<lambda>x. x \<noteq> None) series)) - int (count_eq series '''')"

definition aggregate_cell :: "row list \<Rightarrow> cell option" where
  "aggregate_cell sub =
     (if length sub = 0 then None
      else Some \<lparr>
        cell_n = length sub,
        q71 = count_yes_no (map Q7_1 sub),
        q31 = count_options (map Q3_1 sub) Q31_OPTIONS,
        q32 = count_options (map Q3_2 sub) Q32_OPTIONS,
        q41 = count_options (map Q4_1 sub) Q41_OPTIONS,
        q72 = count_yes_no (map Q7_2 sub),
        q73 = count_yes_no (map Q7_3 sub),
        q74 = count_yes_no (map Q7_4 sub),
        q75 = count_yes_no (map Q7_5 sub),
        q76 = count_yes_no (map Q7_6 sub),
        n_q76 = count_yes_no (map Q7_6 sub) ! 0 + count_yes_no (map Q7_6 sub) ! 1,
        q77 = count_q77 (map Q7_7 sub),
        n_q77 = count_answered_q77 (map Q7_7 sub),
        q78 = fst (mean_q78 sub),
        n_q78 = snd (mean_q78 sub) \<rparr>)"

section \<open>build_cells\<close>

type_synonym cells = "string \<rightharpoonup> cell"

text \<open>\<^verbatim>\<open>f"{key_prefix}|{age}|{edu}"\<close>\<close>

definition cell_key :: "string \<Rightarrow> string \<Rightarrow> string \<Rightarrow> string" where
  "cell_key key_prefix age edu = key_prefix @ ''|'' @ age @ ''|'' @ edu"

text \<open>
  \<^verbatim>\<open>edu_map = {full: short for full, short in EDU_GROUPS}; edu_map.update(EDU_MERGE)\<close>
\<close>

definition edu_map :: "string \<rightharpoonup> string" where
  "edu_map = map_of EDU_GROUPS ++ map_of EDU_MERGE"

text \<open>
  \<^verbatim>\<open>data["edu_short"] = data["Education"].map(edu_map).fillna("")\<close>: the derived column
  is a function of the row.
\<close>

definition edu_short :: "row \<Rightarrow> string" where
  "edu_short r =
     (case Education r of
        None \<Rightarrow> ''''
      | Some e \<Rightarrow> (case edu_map e of None \<Rightarrow> '''' | Some s \<Rightarrow> s))"

definition age_subset :: "row list \<Rightarrow> string \<Rightarrow> row list" where
  "age_subset sub age_full = filter (\<lambda>r. Age r = Some age_full) sub"

definition edu_subset :: "row list \<Rightarrow> string \<Rightarrow> row list" where
  "edu_subset sub edu = filter (\<lambda>r. edu_short r = edu) sub"

text \<open>\<^verbatim>\<open>AGE_SHORT[age_full]\<close>, which raises on a key the dictionary lacks.\<close>

definition age_short_of :: "string \<Rightarrow> error + string" where
  "age_short_of age_full =
     (case map_of AGE_SHORT age_full of None \<Rightarrow> Inl (KeyError age_full) | Some s \<Rightarrow> Inr s)"

text \<open>\<^verbatim>\<open>if cell: cells[key] = cell\<close>\<close>

definition store_cell :: "string \<Rightarrow> cell option \<Rightarrow> cells \<Rightarrow> cells" where
  "store_cell key cell cells = (case cell of None \<Rightarrow> cells | Some c \<Rightarrow> cells(key \<mapsto> c))"

text \<open>\<^verbatim>\<open>if cell and cell["n"] >= 5: cells[key] = cell\<close>\<close>

definition store_cell_min5 :: "string \<Rightarrow> cell option \<Rightarrow> cells \<Rightarrow> cells" where
  "store_cell_min5 key cell cells =
     (case cell of
        None \<Rightarrow> cells
      | Some c \<Rightarrow> if cell_n c \<ge> 5 then cells(key \<mapsto> c) else cells)"

text \<open>A \<^verbatim>\<open>for\<close> loop whose body may raise: the first error ends it.\<close>

fun for_each :: "('a \<Rightarrow> 's \<Rightarrow> error + 's) \<Rightarrow> 'a list \<Rightarrow> 's \<Rightarrow> error + 's" where
  "for_each body [] s = Inr s"
| "for_each body (x # xs) s =
     (case body x s of Inl e \<Rightarrow> Inl e | Inr s' \<Rightarrow> for_each body xs s')"

definition age_step :: "string \<Rightarrow> row list \<Rightarrow> string \<Rightarrow> cells \<Rightarrow> error + cells" where
  "age_step key_prefix sub age_full cells =
     (case age_short_of age_full of
        Inl e \<Rightarrow> Inl e
      | Inr age_short \<Rightarrow>
          Inr (store_cell_min5 (cell_key key_prefix age_short ''All'')
                 (aggregate_cell (age_subset sub age_full)) cells))"

definition edu_step :: "string \<Rightarrow> row list \<Rightarrow> string \<Rightarrow> cells \<Rightarrow> cells" where
  "edu_step key_prefix sub edu cells =
     store_cell_min5 (cell_key key_prefix ''All'' edu)
       (aggregate_cell (edu_subset sub edu)) cells"

definition combo_inner :: "string \<Rightarrow> string \<Rightarrow> row list \<Rightarrow> string \<Rightarrow> cells \<Rightarrow> cells" where
  "combo_inner key_prefix age_short age_rows edu cells =
     store_cell_min5 (cell_key key_prefix age_short edu)
       (aggregate_cell (edu_subset age_rows edu)) cells"

definition combo_step :: "string \<Rightarrow> row list \<Rightarrow> string \<Rightarrow> cells \<Rightarrow> error + cells" where
  "combo_step key_prefix sub age_full cells =
     (case age_short_of age_full of
        Inl e \<Rightarrow> Inl e
      | Inr age_short \<Rightarrow>
          Inr (fold (combo_inner key_prefix age_short (age_subset sub age_full))
                 EDU_SHORT_ORDER cells))"

text \<open>The nested function \<^verbatim>\<open>add_cells\<close>; the dictionary it updates is passed through.\<close>

definition add_cells :: "string \<Rightarrow> row list \<Rightarrow> cells \<Rightarrow> error + cells" where
  "add_cells key_prefix sub cells =
     (case for_each (age_step key_prefix sub) AGE_GROUPS
             (store_cell (cell_key key_prefix ''All'' ''All'') (aggregate_cell sub) cells) of
        Inl e \<Rightarrow> Inl e
      | Inr cells2 \<Rightarrow>
          for_each (combo_step key_prefix sub) AGE_GROUPS
            (fold (edu_step key_prefix sub) EDU_SHORT_ORDER cells2))"

definition oecd_data :: "row list \<Rightarrow> row list" where
  "oecd_data data = filter (\<lambda>r. is_oecd r = Some ''True'') data"

definition lmic_data :: "row list \<Rightarrow> row list" where
  "lmic_data data = filter (\<lambda>r. is_lmic r = Some ''True'') data"

definition country_step :: "row list \<Rightarrow> country_info \<Rightarrow> cells \<Rightarrow> error + cells" where
  "country_step data info cells = add_cells (c_id info) (country_rows data (full_name info)) cells"

definition build_cells :: "row list \<Rightarrow> country_info list \<Rightarrow> error + cells" where
  "build_cells data countries =
     (case add_cells ''All'' data Map.empty of
        Inl e \<Rightarrow> Inl e
      | Inr cells1 \<Rightarrow>
     (case add_cells ''OECD'' (oecd_data data) cells1 of
        Inl e \<Rightarrow> Inl e
      | Inr cells2 \<Rightarrow>
     (case add_cells ''LMIC'' (lmic_data data) cells2 of
        Inl e \<Rightarrow> Inl e
      | Inr cells3 \<Rightarrow> for_each (country_step data) countries cells3)))"

section \<open>build_json\<close>







section \<open>embed_in_html\<close>

text \<open>
  Text is a list of Unicode code points, as a Python \<^verbatim>\<open>str\<close> is. A document on disk is
  held as the code points of its decoded content, line endings as stored; the decoding
  itself is not modelled.
\<close>

type_synonym codepoint = nat
type_synonym utext = "codepoint list"

definition lit :: "string \<Rightarrow> utext" where
  "lit s = map of_char s"

text \<open>
  \<^verbatim>\<open>open(html_path, "r")\<close> and \<^verbatim>\<open>f.read()\<close>: text mode with universal newlines, where
  "\r\n" and a lone "\r" both arrive as "\n".
\<close>

fun read_text :: "utext \<Rightarrow> utext" where
  "read_text [] = []"
| "read_text [c] = [if c = 13 then 10 else c]"
| "read_text (c # d # ds) =
     (if c = 13 \<and> d = 10 then 10 # read_text ds
      else if c = 13 then 10 # read_text (d # ds)
      else c # read_text (d # ds))"

text \<open>
  \<^verbatim>\<open>open(html_path, "w")\<close> and \<^verbatim>\<open>f.write(new_html)\<close>: every "\n" leaves as the line
  separator of the platform, \<^verbatim>\<open>os.linesep\<close>.
\<close>

definition write_text :: "utext \<Rightarrow> utext \<Rightarrow> utext" where
  "write_text linesep t = concat (map (\<lambda>c. if c = 10 then linesep else [c]) t)"

text \<open>The characters that \<^verbatim>\<open>\s\<close> matches in a pattern for \<^verbatim>\<open>str\<close>.\<close>

definition is_space :: "codepoint \<Rightarrow> bool" where
  "is_space c =
     ((9 \<le> c \<and> c \<le> 13) \<or> (28 \<le> c \<and> c \<le> 32) \<or> c = 133 \<or> c = 160 \<or> c = 5760
      \<or> (8192 \<le> c \<and> c \<le> 8202) \<or> c = 8232 \<or> c = 8233 \<or> c = 8239 \<or> c = 8287
      \<or> c = 12288)"

fun strip_prefix :: "'a list \<Rightarrow> 'a list \<Rightarrow> 'a list option" where
  "strip_prefix [] s = Some s"
| "strip_prefix (p # ps) [] = None"
| "strip_prefix (p # ps) (c # cs) = (if p = c then strip_prefix ps cs else None)"

text \<open>
  \<^verbatim>\<open>\s+\<close> in front of a literal that starts with a letter: the longest run of spaces,
  at least one. A shorter run would leave a space where the letter has to be.
\<close>

definition skip_spaces :: "utext \<Rightarrow> utext option" where
  "skip_spaces s =
     (case s of
        [] \<Rightarrow> None
      | c # cs \<Rightarrow> if is_space c then Some (dropWhile is_space cs) else None)"

text \<open>
  The pattern
  \<^verbatim>\<open>(<script\s+id="survey-data"\s+type="application/json">)(.*?)(</script>)\<close>
  in three pieces.
\<close>

definition OPEN_HEAD :: utext where
  "OPEN_HEAD = lit ''<script''"

definition ATTR_ID :: utext where
  \<open>ATTR_ID = lit ''id="survey-data"''\<close>

definition ATTR_TYPE :: utext where
  \<open>ATTR_TYPE = lit ''type="application/json">''\<close>

definition CLOSE_TAG :: utext where
  "CLOSE_TAG = lit ''</script>''"

text \<open>Group 1 at the start of \<open>s\<close>: the text that follows the opening tag.\<close>

definition match_open :: "utext \<Rightarrow> utext option" where
  "match_open s =
     (case strip_prefix OPEN_HEAD s of
        None \<Rightarrow> None
      | Some r1 \<Rightarrow>
     (case skip_spaces r1 of
        None \<Rightarrow> None
      | Some r2 \<Rightarrow>
     (case strip_prefix ATTR_ID r2 of
        None \<Rightarrow> None
      | Some r3 \<Rightarrow>
     (case skip_spaces r3 of
        None \<Rightarrow> None
      | Some r4 \<Rightarrow> strip_prefix ATTR_TYPE r4))))"

text \<open>The index of the first occurrence of \<open>pat\<close>.\<close>

fun find_sub :: "'a list \<Rightarrow> 'a list \<Rightarrow> nat option" where
  "find_sub pat [] = (if pat = [] then Some 0 else None)"
| "find_sub pat (c # cs) =
     (if starts_with pat (c # cs) then Some 0 else map_option Suc (find_sub pat cs))"

text \<open>
  The whole pattern at the start of \<open>s\<close>: the length of group 1 and the length of
  group 2. Group 2 is lazy and the dot matches every character (\<^verbatim>\<open>re.DOTALL\<close>), so it
  ends at the first closing tag.
\<close>

definition match_here :: "utext \<Rightarrow> (nat \<times> nat) option" where
  "match_here s =
     (case match_open s of
        None \<Rightarrow> None
      | Some rest \<Rightarrow>
          (case find_sub CLOSE_TAG rest of
             None \<Rightarrow> None
           | Some j \<Rightarrow> Some (length s - length rest, j)))"

text \<open>
  \<^verbatim>\<open>re.search\<close>: the leftmost position where the pattern matches. The result is
  \<^verbatim>\<open>(match.start(2), match.end(2))\<close>.
\<close>

fun search_from :: "nat \<Rightarrow> utext \<Rightarrow> (nat \<times> nat) option" where
  "search_from i [] = None"
| "search_from i (c # cs) =
     (case match_here (c # cs) of
        Some (k, j) \<Rightarrow> Some (i + k, i + k + j)
      | None \<Rightarrow> search_from (Suc i) cs)"

definition re_search :: "utext \<Rightarrow> (nat \<times> nat) option" where
  "re_search html = search_from 0 html"

datatype exit_status = Returned | Exited nat

datatype message =
    Line string
  | Embedded nat string   \<comment> \<open>\<^verbatim>\<open>f"Embedded {len(json_str):,} bytes of JSON into {html_path}"\<close>\<close>

record run =
  status :: exit_status
  printed :: "message list"
  stored :: utext

text \<open>
  \<open>doc\<close> is the content of the file at \<open>html_path\<close> before the call, \<open>stored\<close> its
  content afterwards.
\<close>

definition embed_in_html :: "utext \<Rightarrow> utext \<Rightarrow> string \<Rightarrow> utext \<Rightarrow> run" where
  \<open>embed_in_html linesep json_str html_path doc =
     (let html = read_text doc
      in case re_search html of
           None \<Rightarrow>
             \<lparr> status = Exited 1,
               printed =
                 [Line ''ERROR: Could not find <script id="survey-data"> tag in HTML file.'',
                  Line ''Make sure the tag exists: <script id="survey-data" type="application/json"></script>''],
               stored = doc \<rparr>
         | Some (s, e) \<Rightarrow>
             \<lparr> status = Returned,
               printed = [Embedded (length json_str) html_path],
               stored = write_text linesep (take s html @ json_str @ drop e html) \<rparr>)\<close>

section \<open>Example inputs and auxiliary notions\<close>

definition blank_row :: row where
  "blank_row = \<lparr> StartDate = Missing, Country = None, Age = None, Education = None,
     is_oecd = None, is_lmic = None, Attention_Check = None,
     Q3_1 = None, Q3_2 = None, Q4_1 = None,
     Q7_1 = None, Q7_2 = None, Q7_3 = None, Q7_4 = None, Q7_5 = None, Q7_6 = None,
     Q7_7 = None,
     Q7_8_1 = None, Q7_8_7 = None, Q7_8_8 = None, Q7_8_9 = None, Q7_8_10 = None \<rparr>"

text \<open>A respondent who passes every filter.\<close>

definition valid_row :: row where
  "valid_row = blank_row \<lparr> StartDate := At (2026, 2, 1, 0), Attention_Check := Some ''7'',
     Q3_1 := Some ''Not sure'' \<rparr>"

text \<open>The row of question labels that a Qualtrics export carries first.\<close>

definition label_row :: row where
  "label_row = blank_row \<lparr> StartDate := Malformed, Attention_Check := Some ''Attention Check'',
     Q3_1 := Some ''Do you think climate change is happening?'' \<rparr>"



text \<open>A respondent who ticked two of the five spending options.\<close>

definition two_option_row :: row where
  "two_option_row = blank_row \<lparr> Q7_7 := Some
     ''Given directly to people in poor countries,Put in an insurance fund for disasters (like droughts and hurricanes)'' \<rparr>"

text \<open>Rows for the allocation question: the answer to Q7.7 and the first allocation field.\<close>

definition alloc_row :: "string option \<Rightarrow> rat option \<Rightarrow> row" where
  "alloc_row answer share = blank_row \<lparr> Q7_7 := answer, Q7_8_1 := share \<rparr>"

definition alloc_rows :: "row list" where
  "alloc_rows =
     [alloc_row (Some ''Given directly to people in poor countries'') (Some 10),
      alloc_row (Some ''Given directly to people in poor countries'') (Some 10),
      alloc_row (Some ''Given directly to people in poor countries'') (Some 15),
      alloc_row None (Some 100),
      alloc_row (Some '''') (Some 100)]"


text \<open>A table of 103 respondents: three from Chile, one hundred from Kenya.\<close>

definition kenya_row :: row where
  "kenya_row = blank_row \<lparr> Country := Some ''Kenya'', is_lmic := Some ''True'' \<rparr>"

definition chile_row :: row where
  "chile_row = blank_row \<lparr> Country := Some ''Chile'', is_oecd := Some ''True'' \<rparr>"

definition survey_103 :: "row list" where
  "survey_103 = replicate 3 chile_row @ replicate 100 kenya_row"

text \<open>The descriptor that the loop of \<^verbatim>\<open>get_country_info\<close> appends for one entry of the counts.\<close>

definition describe_country :: "row list \<Rightarrow> string \<times> nat \<Rightarrow> country_info" where
  "describe_country data p =
     \<lparr> c_id = country_short (fst p), c_name = country_short (fst p), full_name = fst p,
       c_group = country_group data (fst p), c_n = snd p \<rparr>"

text \<open>
  Six respondents: five aged 18 to 24, and one aged 65 or more who lives in Chile, an
  OECD country. The descriptor of Chile is given by hand, below the threshold of
  \<^verbatim>\<open>get_country_info\<close>, since \<^verbatim>\<open>build_cells\<close> takes any list of descriptors.
\<close>

definition age_row :: "string \<Rightarrow> row" where
  "age_row age = blank_row \<lparr> Age := Some age \<rparr>"

definition small_survey :: "row list" where
  "small_survey =
     replicate 5 (age_row ''18-24 years old'')
     @ [(age_row ''65+ years old'') \<lparr> Country := Some ''Chile'', is_oecd := Some ''True'' \<rparr>]"

definition chile_info :: country_info where
  "chile_info = \<lparr> c_id = ''Chile'', c_name = ''Chile'', full_name = ''Chile'',
     c_group = ''oecd'', c_n = 1 \<rparr>"




text \<open>A label without the delimiter of the keys.\<close>

definition bar_free :: "string \<Rightarrow> bool" where
  "bar_free s = (CHR ''|'' \<notin> set s)"

text \<open>
  Every cell stored under a key whose age or education part is not "All" has at least
  five respondents.
\<close>

definition small_cells_top_only :: "cells \<Rightarrow> bool" where
  "small_cells_top_only built =
     (\<forall>p a e c. bar_free a \<longrightarrow> bar_free e \<longrightarrow> built (cell_key p a e) = Some c
        \<longrightarrow> (a = ''All'' \<and> e = ''All'') \<or> 5 \<le> cell_n c)"

text \<open>The placeholder as the docstring of the script writes it.\<close>

definition PLACEHOLDER :: utext where
  \<open>PLACEHOLDER = lit ''<script id="survey-data" type="application/json"></script>''\<close>

text \<open>
  A page with the placeholder whose first line ends in "\n" and whose line after the
  placeholder ends in "\r\n", and what it should become when only the inside of the
  placeholder is replaced by the two characters of an empty JSON object.
\<close>

definition page :: utext where
  "page = lit ''<html>'' @ [10] @ PLACEHOLDER @ [13, 10] @ lit ''</html>''"

definition page_with_json :: utext where
  \<open>page_with_json =
     lit ''<html>'' @ [10] @ lit ''<script id="survey-data" type="application/json">{}</script>''
     @ [13, 10] @ lit ''</html>''\<close>

text \<open>A page with the placeholder and without line breaks.\<close>

definition small_page :: utext where
  "small_page = lit ''<html>'' @ PLACEHOLDER"

text \<open>A page with the placeholder in which every line ends in "\r\n".\<close>

definition crlf_page :: utext where
  "crlf_page = lit ''<html>'' @ [13, 10] @ PLACEHOLDER @ [13, 10] @ lit ''</html>''"

text \<open>A page without the placeholder.\<close>

definition plain_page :: utext where
  "plain_page = lit ''<html><body></body></html>''"

section \<open>Properties of the filter\<close>

lemma row_filters_output:
  assumes "row_filters data = Inr out"
  shows "out = attention_filter (date_filter (drop_import_rows data))"
    and "\<not> list_ex (\<lambda>r. StartDate r = Malformed) (drop_import_rows data)"
  using assms by (auto simp: row_filters_def to_datetime_def split: if_splits)

lemma row_filters_fixpoint:
  assumes "row_filters data = Inr out"
  shows "row_filters out = Inr out"
proof -
  have out: "out = attention_filter (date_filter (drop_import_rows data))"
    using assms by (rule row_filters_output)
  have import: "\<forall>r \<in> set out. \<not> is_import_row r"
    by (auto simp: out attention_filter_def date_filter_def drop_import_rows_def)
  have dated: "\<forall>r \<in> set out. on_or_after_cutoff r"
    by (auto simp: out attention_filter_def date_filter_def)
  have attn: "\<forall>r \<in> set out. Attention_Check r = Some ATTENTION_ANSWER"
    by (auto simp: out attention_filter_def)
  have d: "drop_import_rows out = out"
    using import by (simp add: drop_import_rows_def)
  have "\<forall>r \<in> set out. StartDate r \<noteq> Malformed"
    using dated by (auto simp: on_or_after_cutoff_def split: start_date.splits)
  then have p: "to_datetime out = Inr out"
    by (auto simp: to_datetime_def list_ex_iff)
  have f: "date_filter out = out"
    using dated by (simp add: date_filter_def)
  have a: "attention_filter out = out"
    using attn by (simp add: attention_filter_def)
  show ?thesis
    by (simp add: row_filters_def d p f a)
qed

lemma load_and_filter_valid_example:
  "load_and_filter [label_row, valid_row] = Inr [valid_row]"
  by (simp add: load_and_filter_def skip_label_row_def row_filters_def to_datetime_def
      drop_import_rows_def is_import_row_def date_filter_def on_or_after_cutoff_def
      attention_filter_def valid_row_def blank_row_def DATE_CUTOFF_def ATTENTION_ANSWER_def)

text \<open>
  C3. Filtering is idempotent up to the label row. The stage skips the first row of its
  input whatever it holds, so running the stage again on its own output loses that
  output's first respondent. What does hold: the three content filters (import marker,
  cutoff date, attention check) leave the output of the stage unchanged, and so does the
  whole stage once a label row is put back in front of the output.
\<close>

theorem load_and_filter_idempotent_after_label_row:
  assumes "load_and_filter df = Inr out"
  shows "row_filters out = Inr out \<and> load_and_filter (labels # out) = Inr out"
proof -
  have "row_filters out = Inr out"
    using assms unfolding load_and_filter_def by (rule row_filters_fixpoint)
  then show ?thesis
    by (simp add: load_and_filter_def skip_label_row_def)
qed

theorem load_and_filter_idempotent_after_label_row_witness:
  "load_and_filter [label_row, valid_row] = Inr [valid_row]
   \<and> row_filters [valid_row] = Inr [valid_row]
   \<and> load_and_filter [blank_row, valid_row] = Inr [valid_row]"
  using load_and_filter_idempotent_after_label_row
    [OF load_and_filter_valid_example, of blank_row]
  by (simp add: load_and_filter_valid_example)

text \<open>
  The claim as stated fails: from a label row and one valid respondent the stage keeps
  the respondent, and applied to that output it keeps nobody.
\<close>

theorem load_and_filter_not_idempotent:
  "load_and_filter [label_row, valid_row] = Inr [valid_row]
   \<and> load_and_filter [valid_row] = Inr []"
  by (simp add: load_and_filter_def skip_label_row_def row_filters_def to_datetime_def
      drop_import_rows_def is_import_row_def date_filter_def on_or_after_cutoff_def
      attention_filter_def valid_row_def blank_row_def DATE_CUTOFF_def ATTENTION_ANSWER_def)










section \<open>Properties of the per-question counts\<close>

lemma matching_options_le_one:
  assumes "distinct opts"
  shows "length (filter (\<lambda>opt. x = Some opt) opts) \<le> 1"
  using assms
proof (induction opts)
  case Nil
  then show ?case by simp
next
  case (Cons a opts)
  show ?case
  proof (cases "x = Some a")
    case True
    have "filter (\<lambda>opt. x = Some opt) opts = []"
      using Cons.prems True by (auto simp: filter_empty_conv)
    then show ?thesis using True by simp
  next
    case False
    then show ?thesis using Cons by simp
  qed
qed

lemma count_options_Cons:
  "sum_list (count_options (x # series) opts)
   = length (filter (\<lambda>opt. x = Some opt) opts) + sum_list (count_options series opts)"
  by (induction opts) (simp_all add: count_options_def count_eq_def)

lemma count_options_sum_le:
  assumes "distinct opts"
  shows "sum_list (count_options series opts) \<le> length series"
proof (induction series)
  case Nil
  show ?case by (induction opts) (simp_all add: count_options_def count_eq_def)
next
  case (Cons x series)
  have "length (filter (\<lambda>opt. x = Some opt) opts) \<le> 1"
    using assms by (rule matching_options_le_one)
  then show ?case using Cons by (simp add: count_options_Cons)
qed

lemma count_yes_no_sum_le: "sum_list (count_yes_no series) \<le> length series"
proof -
  have "count_yes_no series = count_options series [''Yes'', ''No'']"
    by (simp add: count_yes_no_def count_options_def)
  moreover have "distinct [''Yes'', ''No'']" by simp
  ultimately show ?thesis using count_options_sum_le [of "[''Yes'', ''No'']" series]
    by (simp only:)
qed

lemma distinct_Q31: "distinct Q31_OPTIONS" by (simp add: Q31_OPTIONS_def)
lemma distinct_Q32: "distinct Q32_OPTIONS" by (simp add: Q32_OPTIONS_def)
lemma distinct_Q41: "distinct Q41_OPTIONS" by (simp add: Q41_OPTIONS_def)

lemma count_answered_q77_eq:
  "count_answered_q77 series = int (length (filter (\<lambda>x. x \<noteq> None \<and> x \<noteq> Some '''') series))"
  by (induction series) (auto simp: count_answered_q77_def count_eq_def)

lemma str_contains_nonempty: "str_contains pat s \<Longrightarrow> pat \<noteq> [] \<Longrightarrow> s \<noteq> []"
  by (cases s) auto

lemma count_q77_each_le:
  assumes "k \<in> set (count_q77 series)"
  shows "int k \<le> count_answered_q77 series"
proof -
  from assms obtain opt where opt: "opt \<in> set Q77_FULL_OPTIONS"
    and k: "k = length (filter (contains_opt opt) series)"
    by (auto simp: count_q77_def)
  have ne: "opt \<noteq> []" using opt by (auto simp: Q77_FULL_OPTIONS_def)
  have "\<And>x. contains_opt opt x \<Longrightarrow> x \<noteq> None \<and> x \<noteq> Some ''''"
    using ne by (auto simp: contains_opt_def split: option.splits)
  then have "filter (contains_opt opt) series
      = filter (contains_opt opt) (filter (\<lambda>x. x \<noteq> None \<and> x \<noteq> Some '''') series)"
    by (induction series) auto
  then have "k \<le> length (filter (\<lambda>x. x \<noteq> None \<and> x \<noteq> Some '''') series)"
    unfolding k by (metis length_filter_le)
  then show ?thesis by (simp add: count_answered_q77_eq)
qed

lemma count_answered_q77_le: "count_answered_q77 series \<le> int (length series)"
  by (simp add: count_answered_q77_eq)

lemma sum_list_bounded:
  fixes ks :: "nat list"
  assumes "\<And>k. k \<in> set ks \<Longrightarrow> int k \<le> b"
  shows "int (sum_list ks) \<le> int (length ks) * b"
  using assms
proof (induction ks)
  case Nil
  then show ?case by simp
next
  case (Cons a ks)
  have "int a \<le> b" by (rule Cons.prems) simp
  moreover have "int (sum_list ks) \<le> int (length ks) * b"
    using Cons by simp
  ultimately show ?case by (simp add: algebra_simps)
qed

lemma length_count_q77: "length (count_q77 series) = 5"
  by (simp add: count_q77_def Q77_FULL_OPTIONS_def)

lemma aggregate_cell_nonempty:
  assumes "aggregate_cell sub = Some c"
  shows "length sub \<noteq> 0"
  using assms unfolding aggregate_cell_def by (cases "length sub = 0") simp_all

lemma aggregate_cell_fields:
  assumes "aggregate_cell sub = Some c"
  shows "cell_n c = length sub"
    and "q71 c = count_yes_no (map Q7_1 sub)"
    and "q31 c = count_options (map Q3_1 sub) Q31_OPTIONS"
    and "q32 c = count_options (map Q3_2 sub) Q32_OPTIONS"
    and "q41 c = count_options (map Q4_1 sub) Q41_OPTIONS"
    and "q72 c = count_yes_no (map Q7_2 sub)"
    and "q73 c = count_yes_no (map Q7_3 sub)"
    and "q74 c = count_yes_no (map Q7_4 sub)"
    and "q75 c = count_yes_no (map Q7_5 sub)"
    and "q76 c = count_yes_no (map Q7_6 sub)"
    and "n_q76 c = count_yes_no (map Q7_6 sub) ! 0 + count_yes_no (map Q7_6 sub) ! 1"
    and "q77 c = count_q77 (map Q7_7 sub)"
    and "n_q77 c = count_answered_q77 (map Q7_7 sub)"
    and "q78 c = fst (mean_q78 sub)"
    and "n_q78 c = snd (mean_q78 sub)"
proof -
  have ne: "length sub \<noteq> 0" using assms by (rule aggregate_cell_nonempty)
  have c: "c = the (aggregate_cell sub)" by (simp only: assms option.sel)
  show "cell_n c = length sub"
    unfolding c aggregate_cell_def using ne by (simp only: if_False option.sel cell.select_convs)
  show "q71 c = count_yes_no (map Q7_1 sub)"
    unfolding c aggregate_cell_def using ne by (simp only: if_False option.sel cell.select_convs)
  show "q31 c = count_options (map Q3_1 sub) Q31_OPTIONS"
    unfolding c aggregate_cell_def using ne by (simp only: if_False option.sel cell.select_convs)
  show "q32 c = count_options (map Q3_2 sub) Q32_OPTIONS"
    unfolding c aggregate_cell_def using ne by (simp only: if_False option.sel cell.select_convs)
  show "q41 c = count_options (map Q4_1 sub) Q41_OPTIONS"
    unfolding c aggregate_cell_def using ne by (simp only: if_False option.sel cell.select_convs)
  show "q72 c = count_yes_no (map Q7_2 sub)"
    unfolding c aggregate_cell_def using ne by (simp only: if_False option.sel cell.select_convs)
  show "q73 c = count_yes_no (map Q7_3 sub)"
    unfolding c aggregate_cell_def using ne by (simp only: if_False option.sel cell.select_convs)
  show "q74 c = count_yes_no (map Q7_4 sub)"
    unfolding c aggregate_cell_def using ne by (simp only: if_False option.sel cell.select_convs)
  show "q75 c = count_yes_no (map Q7_5 sub)"
    unfolding c aggregate_cell_def using ne by (simp only: if_False option.sel cell.select_convs)
  show "q76 c = count_yes_no (map Q7_6 sub)"
    unfolding c aggregate_cell_def using ne by (simp only: if_False option.sel cell.select_convs)
  show "n_q76 c = count_yes_no (map Q7_6 sub) ! 0 + count_yes_no (map Q7_6 sub) ! 1"
    unfolding c aggregate_cell_def using ne by (simp only: if_False option.sel cell.select_convs)
  show "q77 c = count_q77 (map Q7_7 sub)"
    unfolding c aggregate_cell_def using ne by (simp only: if_False option.sel cell.select_convs)
  show "n_q77 c = count_answered_q77 (map Q7_7 sub)"
    unfolding c aggregate_cell_def using ne by (simp only: if_False option.sel cell.select_convs)
  show "q78 c = fst (mean_q78 sub)"
    unfolding c aggregate_cell_def using ne by (simp only: if_False option.sel cell.select_convs)
  show "n_q78 c = snd (mean_q78 sub)"
    unfolding c aggregate_cell_def using ne by (simp only: if_False option.sel cell.select_convs)
qed

text \<open>
  C2. Per-option counts against their denominators. For every yes/no and single-choice
  question the counts of a cell add up to at most the cell's \<open>n\<close>; for Q7.6 they add up
  to exactly \<open>n_q76\<close>. For the multi-select question Q7.7 the bound holds for each
  option on its own: no option is counted more often than \<open>n_q77\<close>, the number of rows
  with an answer, and \<open>n_q77\<close> is at most \<open>n\<close>. The five counts together are bounded by
  five times \<open>n_q77\<close> only, because one row counts toward every option it names.
\<close>

theorem cell_counts_within_denominators:
  assumes "aggregate_cell sub = Some c"
  shows "sum_list (q71 c) \<le> cell_n c \<and> sum_list (q31 c) \<le> cell_n c
       \<and> sum_list (q32 c) \<le> cell_n c \<and> sum_list (q41 c) \<le> cell_n c
       \<and> sum_list (q72 c) \<le> cell_n c \<and> sum_list (q73 c) \<le> cell_n c
       \<and> sum_list (q74 c) \<le> cell_n c \<and> sum_list (q75 c) \<le> cell_n c
       \<and> sum_list (q76 c) = n_q76 c \<and> n_q76 c \<le> cell_n c
       \<and> (\<forall>k \<in> set (q77 c). int k \<le> n_q77 c)
       \<and> int (sum_list (q77 c)) \<le> 5 * n_q77 c
       \<and> n_q77 c \<le> int (cell_n c)"
proof -
  have yn: "sum_list (count_yes_no (map f sub)) \<le> length sub" for f
    using count_yes_no_sum_le [of "map f sub"] by simp
  have o31: "sum_list (count_options (map Q3_1 sub) Q31_OPTIONS) \<le> length sub"
    using count_options_sum_le [OF distinct_Q31, of "map Q3_1 sub"] by simp
  have o32: "sum_list (count_options (map Q3_2 sub) Q32_OPTIONS) \<le> length sub"
    using count_options_sum_le [OF distinct_Q32, of "map Q3_2 sub"] by simp
  have o41: "sum_list (count_options (map Q4_1 sub) Q41_OPTIONS) \<le> length sub"
    using count_options_sum_le [OF distinct_Q41, of "map Q4_1 sub"] by simp
  have s76: "sum_list (count_yes_no s) = count_yes_no s ! 0 + count_yes_no s ! 1" for s
    by (simp add: count_yes_no_def)
  have each: "\<forall>k \<in> set (count_q77 (map Q7_7 sub)). int k \<le> count_answered_q77 (map Q7_7 sub)"
    using count_q77_each_le by blast
  have five: "int (sum_list (count_q77 (map Q7_7 sub))) \<le> 5 * count_answered_q77 (map Q7_7 sub)"
    using sum_list_bounded [of "count_q77 (map Q7_7 sub)" "count_answered_q77 (map Q7_7 sub)"]
      each by (simp add: length_count_q77)
  have ans: "count_answered_q77 (map Q7_7 sub) \<le> int (length sub)"
    using count_answered_q77_le [of "map Q7_7 sub"] by simp
  note f = aggregate_cell_fields [OF assms]
  have n76: "count_yes_no (map Q7_6 sub) ! 0 + count_yes_no (map Q7_6 sub) ! 1 \<le> length sub"
    using yn [of Q7_6] s76 [of "map Q7_6 sub"] by simp
  show ?thesis
    unfolding f(1-13) using yn [of Q7_1] yn [of Q7_2] yn [of Q7_3] yn [of Q7_4] yn [of Q7_5]
      o31 o32 o41 each five ans s76 [of "map Q7_6 sub"] n76
    by (simp only: simp_thms)
qed

theorem cell_counts_within_denominators_witness:
  "aggregate_cell [two_option_row] = Some (the (aggregate_cell [two_option_row]))
   \<and> sum_list (q71 (the (aggregate_cell [two_option_row])))
       \<le> cell_n (the (aggregate_cell [two_option_row]))
   \<and> int (sum_list (q77 (the (aggregate_cell [two_option_row]))))
       \<le> 5 * n_q77 (the (aggregate_cell [two_option_row]))
   \<and> n_q77 (the (aggregate_cell [two_option_row]))
       \<le> int (cell_n (the (aggregate_cell [two_option_row])))"
proof -
  have s: "aggregate_cell [two_option_row] = Some (the (aggregate_cell [two_option_row]))"
    by (simp add: aggregate_cell_def)
  show ?thesis
    using cell_counts_within_denominators [OF s] s by blast
qed

text \<open>
  The claim as stated fails for the multi-select question: one respondent who ticked
  two options gives a cell whose Q7.7 counts add up to 2 while \<open>n_q77\<close> is 1.
\<close>

theorem multi_select_counts_exceed_denominator:
  "aggregate_cell [two_option_row] \<noteq> None
   \<and> q77 (the (aggregate_cell [two_option_row])) = [0, 1, 1, 0, 0]
   \<and> n_q77 (the (aggregate_cell [two_option_row])) = 1"
  by code_simp

section \<open>Properties of mean_q78\<close>

lemma round_half_even_cases:
  "round_half_even y = \<lfloor>y\<rfloor> \<or> (round_half_even y = \<lfloor>y\<rfloor> + 1 \<and> of_int \<lfloor>y\<rfloor> + 1 / 2 \<le> y)"
  by (auto simp: round_half_even_def Let_def)

lemma round_half_even_nonneg:
  assumes "0 \<le> y"
  shows "0 \<le> round_half_even y"
proof -
  have "0 \<le> \<lfloor>y\<rfloor>" using assms by simp
  then show ?thesis using round_half_even_cases [of y] by auto
qed

lemma round_half_even_le_int:
  assumes "y \<le> of_int N"
  shows "round_half_even y \<le> N"
proof -
  have f: "\<lfloor>y\<rfloor> \<le> N" using assms by (simp add: floor_le_iff)
  show ?thesis
  proof (cases "\<lfloor>y\<rfloor> = N")
    case True
    then have "y = of_int \<lfloor>y\<rfloor>"
      using assms of_int_floor_le [of y] by simp
    then have "y - of_int \<lfloor>y\<rfloor> = 0" by simp
    then have "round_half_even y = \<lfloor>y\<rfloor>"
      by (simp add: round_half_even_def Let_def)
    then show ?thesis using True by simp
  next
    case False
    then have "\<lfloor>y\<rfloor> + 1 \<le> N" using f by simp
    then show ?thesis using round_half_even_cases [of y] by auto
  qed
qed

lemma round_half_even_close:
  "\<bar>of_int (round_half_even y) - y\<bar> \<le> 1 / 2"
proof -
  define d where "d = y - of_int \<lfloor>y\<rfloor>"
  have lo: "0 \<le> d" unfolding d_def using of_int_floor_le [of y] by simp
  have hi: "d < 1" unfolding d_def using floor_correct [of y] by simp
  have y: "y = of_int \<lfloor>y\<rfloor> + d" unfolding d_def by simp
  consider "d < 1 / 2" | "d > 1 / 2" | "d = 1 / 2" by linarith
  then show ?thesis
  proof cases
    case 1
    then have "round_half_even y = \<lfloor>y\<rfloor>"
      by (simp add: round_half_even_def Let_def d_def)
    then have "of_int (round_half_even y) - y = - d" using y by simp
    then show ?thesis using 1 lo by simp
  next
    case 2
    then have "round_half_even y = \<lfloor>y\<rfloor> + 1"
      by (simp add: round_half_even_def Let_def d_def)
    then have "of_int (round_half_even y) - y = 1 - d" using y by simp
    then show ?thesis using 2 hi by simp
  next
    case 3
    have "round_half_even y = \<lfloor>y\<rfloor> \<or> round_half_even y = \<lfloor>y\<rfloor> + 1"
      using round_half_even_cases [of y] by blast
    then have "of_int (round_half_even y) - y = - d \<or> of_int (round_half_even y) - y = 1 - d"
      using y by auto
    then show ?thesis using 3 by auto
  qed
qed

lemma round1_range:
  assumes "0 \<le> x" and "x \<le> 100"
  shows "0 \<le> round1 x \<and> round1 x \<le> 100"
proof -
  have "0 \<le> round_half_even (10 * x)"
    using assms by (intro round_half_even_nonneg) simp
  moreover have "round_half_even (10 * x) \<le> 1000"
    using assms by (intro round_half_even_le_int) simp
  ultimately show ?thesis by (simp add: round1_def)
qed

lemma round1_close: "\<bar>round1 x - x\<bar> \<le> 1 / 20"
proof -
  have c: "\<bar>of_int (round_half_even (10 * x)) - 10 * x\<bar> \<le> 1 / 2"
    by (rule round_half_even_close)
  have "round1 x - x = (of_int (round_half_even (10 * x)) - 10 * x) / 10"
    by (simp add: round1_def field_simps)
  then have "\<bar>round1 x - x\<bar> = \<bar>of_int (round_half_even (10 * x)) - 10 * x\<bar> / 10"
    by (simp only: abs_divide abs_numeral)
  also have "\<dots> \<le> (1 / 2) / 10"
    using c by (rule divide_right_mono) simp
  finally show ?thesis by simp
qed

lemma sum_list_range:
  fixes vs :: "rat list"
  assumes "\<And>v. v \<in> set vs \<Longrightarrow> 0 \<le> v \<and> v \<le> b"
  shows "0 \<le> sum_list vs \<and> sum_list vs \<le> of_nat (length vs) * b"
  using assms
proof (induction vs)
  case Nil
  then show ?case by simp
next
  case (Cons a vs)
  have a: "0 \<le> a \<and> a \<le> b" by (rule Cons.prems) simp
  have "0 \<le> sum_list vs \<and> sum_list vs \<le> of_nat (length vs) * b"
    using Cons by simp
  then show ?case using a by (simp add: algebra_simps)
qed

lemma mean_range:
  assumes "vs \<noteq> []" and "\<And>v. v \<in> set vs \<Longrightarrow> 0 \<le> v \<and> v \<le> b"
  shows "0 \<le> mean vs \<and> mean vs \<le> b"
proof -
  have s: "0 \<le> sum_list vs \<and> sum_list vs \<le> of_nat (length vs) * b"
    using assms(2) by (rule sum_list_range)
  have l: "(0::rat) < of_nat (length vs)" using assms(1) by simp
  have "sum_list vs / of_nat (length vs) \<le> b"
    using s l by (simp add: pos_divide_le_eq mult.commute)
  then show ?thesis using s l by (simp add: mean_def)
qed


lemma mean_q78_answered:
  assumes "filter answered_q77 sub \<noteq> []"
  shows "mean_q78 sub =
           (map (\<lambda>col. round1 (mean (map (\<lambda>r. fillna0 (col r)) (filter answered_q77 sub))))
              Q78_COLS,
            length (filter answered_q77 sub))"
  using assms by (simp add: mean_q78_def Let_def)

lemma mean_q78_unanswered:
  assumes "filter answered_q77 sub = []"
  shows "mean_q78 sub = ([0, 0, 0, 0, 0], 0)"
  using assms by (simp add: mean_q78_def Let_def Q78_COLS_def)

lemma length_Q78_COLS: "length Q78_COLS = 5"
  by (simp add: Q78_COLS_def)

lemma round1_tenth: "\<exists>k::int. round1 x = of_int k / 10"
  unfolding round1_def by blast

text \<open>
  C5. The allocation means of a cell. The denominator is the number of rows with an
  answer to Q7.7 (neither NaN nor empty), and rows without one have no influence on the
  result. With no such row the result is five zeros and denominator 0. Otherwise each of
  the five figures is a multiple of one tenth within one twentieth of the mean of its
  field over the answering rows, a missing or unparsable field counting as zero. When
  every field that holds a number holds one between 0 and 100, so does every figure.
\<close>

theorem mean_q78_properties:
  "snd (mean_q78 sub) = length (filter answered_q77 sub)
   \<and> length (fst (mean_q78 sub)) = 5
   \<and> mean_q78 sub = mean_q78 (filter answered_q77 sub)
   \<and> (filter answered_q77 sub = [] \<longrightarrow> mean_q78 sub = ([0, 0, 0, 0, 0], 0))
   \<and> (filter answered_q77 sub \<noteq> [] \<longrightarrow>
        (\<forall>i < 5.
           \<bar>fst (mean_q78 sub) ! i
              - mean (map (\<lambda>r. fillna0 ((Q78_COLS ! i) r)) (filter answered_q77 sub))\<bar> \<le> 1 / 20
           \<and> (\<exists>k::int. fst (mean_q78 sub) ! i = of_int k / 10)))
   \<and> ((\<forall>r \<in> set sub. \<forall>col \<in> set Q78_COLS. \<forall>x. col r = Some x \<longrightarrow> 0 \<le> x \<and> x \<le> 100)
        \<longrightarrow> (\<forall>m \<in> set (fst (mean_q78 sub)). 0 \<le> m \<and> m \<le> 100))"
proof -
  let ?has = "filter answered_q77 sub"
  have p1: "snd (mean_q78 sub) = length ?has"
    by (simp add: mean_q78_def Let_def)
  have p2: "length (fst (mean_q78 sub)) = 5"
    by (simp add: mean_q78_def Let_def length_Q78_COLS)
  have p3: "mean_q78 sub = mean_q78 ?has"
    by (simp add: mean_q78_def Let_def)
  have p4: "?has = [] \<longrightarrow> mean_q78 sub = ([0, 0, 0, 0, 0], 0)"
    using mean_q78_unanswered by blast
  have p5: "?has \<noteq> [] \<longrightarrow>
        (\<forall>i < 5.
           \<bar>fst (mean_q78 sub) ! i
              - mean (map (\<lambda>r. fillna0 ((Q78_COLS ! i) r)) ?has)\<bar> \<le> 1 / 20
           \<and> (\<exists>k::int. fst (mean_q78 sub) ! i = of_int k / 10))"
  proof (intro impI allI)
    fix i :: nat
    assume ne: "?has \<noteq> []" and i: "i < 5"
    have "fst (mean_q78 sub) ! i
          = round1 (mean (map (\<lambda>r. fillna0 ((Q78_COLS ! i) r)) ?has))"
      using i by (simp add: mean_q78_answered [OF ne] length_Q78_COLS)
    then show "\<bar>fst (mean_q78 sub) ! i
              - mean (map (\<lambda>r. fillna0 ((Q78_COLS ! i) r)) ?has)\<bar> \<le> 1 / 20
           \<and> (\<exists>k::int. fst (mean_q78 sub) ! i = of_int k / 10)"
      using round1_close round1_tenth by simp
  qed
  have p6: "(\<forall>r \<in> set sub. \<forall>col \<in> set Q78_COLS. \<forall>x. col r = Some x \<longrightarrow> 0 \<le> x \<and> x \<le> 100)
        \<longrightarrow> (\<forall>m \<in> set (fst (mean_q78 sub)). 0 \<le> m \<and> m \<le> 100)"
  proof (intro impI ballI)
    fix m
    assume wf: "\<forall>r \<in> set sub. \<forall>col \<in> set Q78_COLS. \<forall>x. col r = Some x \<longrightarrow> 0 \<le> x \<and> x \<le> 100"
      and m: "m \<in> set (fst (mean_q78 sub))"
    show "0 \<le> m \<and> m \<le> 100"
    proof (cases "?has = []")
      case True
      then show ?thesis using m by (auto simp: mean_q78_unanswered)
    next
      case False
      from m obtain col where col: "col \<in> set Q78_COLS"
        and m_eq: "m = round1 (mean (map (\<lambda>r. fillna0 (col r)) ?has))"
        by (auto simp: mean_q78_answered [OF False])
      have "\<And>v. v \<in> set (map (\<lambda>r. fillna0 (col r)) ?has) \<Longrightarrow> 0 \<le> v \<and> v \<le> 100"
        using wf col by (auto simp: fillna0_def split: option.splits)
      moreover have "map (\<lambda>r. fillna0 (col r)) ?has \<noteq> []" using False by simp
      ultimately have "0 \<le> mean (map (\<lambda>r. fillna0 (col r)) ?has)
          \<and> mean (map (\<lambda>r. fillna0 (col r)) ?has) \<le> 100"
        by (intro mean_range) auto
      then show ?thesis unfolding m_eq using round1_range by blast
    qed
  qed
  show ?thesis using p1 p2 p3 p4 p5 p6 by (intro conjI)
qed

theorem mean_q78_properties_witness:
  "filter answered_q77 alloc_rows \<noteq> []
   \<and> mean_q78 alloc_rows = ([117 / 10, 0, 0, 0, 0], 3)
   \<and> snd (mean_q78 alloc_rows) = length (filter answered_q77 alloc_rows)
   \<and> mean_q78 alloc_rows = mean_q78 (filter answered_q77 alloc_rows)
   \<and> list_all (\<lambda>m. 0 \<le> m \<and> m \<le> 100) (fst (mean_q78 alloc_rows))"
proof -
  have h: "\<forall>r \<in> set alloc_rows. \<forall>col \<in> set Q78_COLS. \<forall>x. col r = Some x \<longrightarrow> 0 \<le> x \<and> x \<le> 100"
    by (simp add: alloc_rows_def alloc_row_def blank_row_def Q78_COLS_def)
  have ne: "filter answered_q77 alloc_rows \<noteq> []"
    by (simp add: alloc_rows_def alloc_row_def blank_row_def answered_q77_def)
  have e: "mean_q78 alloc_rows = ([117 / 10, 0, 0, 0, 0], 3)"
    by code_simp
  note t = mean_q78_properties [of alloc_rows]
  have d: "snd (mean_q78 alloc_rows) = length (filter answered_q77 alloc_rows)"
    using t by blast
  have f: "mean_q78 alloc_rows = mean_q78 (filter answered_q77 alloc_rows)"
    using t by blast
  have "\<forall>m \<in> set (fst (mean_q78 alloc_rows)). 0 \<le> m \<and> m \<le> 100"
    using t h by blast
  then have r: "list_all (\<lambda>m. 0 \<le> m \<and> m \<le> 100) (fst (mean_q78 alloc_rows))"
    by (simp add: list_all_iff)
  show ?thesis
    using ne e d f r by blast
qed

section \<open>Properties of get_country_info\<close>

lemma count_eq_Country: "count_eq (map Country data) v = length (country_rows data v)"
  by (simp add: count_eq_def country_rows_def comp_def)

lemma set_dropna: "set (dropna series) = {v. Some v \<in> set series}"
  by (induction series) (auto simp: dropna_def split: option.splits)

lemma value_counts_set:
  "set (value_counts series) = {(v, count_eq series v) | v. Some v \<in> set series}"
  by (auto simp: value_counts_def set_dropna)

lemma value_counts_distinct: "distinct (map fst (value_counts series))"
proof -
  let ?vs = "rev (remdups (rev (dropna series)))"
  have "distinct (map (\<lambda>v. (v, count_eq series v)) ?vs)"
    by (simp add: distinct_map inj_on_def)
  moreover have "inj_on fst (set (map (\<lambda>v. (v, count_eq series v)) ?vs))"
    by (auto simp: inj_on_def)
  ultimately show ?thesis
    unfolding value_counts_def by (simp add: distinct_map)
qed

lemma value_counts_sorted:
  "sorted_wrt (\<lambda>p q. snd p \<ge> snd q) (value_counts series)"
proof -
  have "sorted (map (\<lambda>p. - int (snd p)) (value_counts series))"
    unfolding value_counts_def by (rule sorted_sort_key)
  then show ?thesis by (simp add: sorted_map)
qed

lemma country_loop_map_filter:
  "country_loop data counts
   = map (describe_country data) (filter (\<lambda>p. snd p \<ge> MIN_COUNTRY_N) counts)"
  by (induction data counts rule: country_loop.induct) (simp_all add: describe_country_def)

lemma get_country_info_set:
  "set (get_country_info data)
   = {describe_country data (v, length (country_rows data v)) | v.
        MIN_COUNTRY_N \<le> length (country_rows data v)}"
proof -
  have pos: "MIN_COUNTRY_N \<le> length (country_rows data v) \<Longrightarrow> Some v \<in> set (map Country data)"
    for v
  proof -
    assume "MIN_COUNTRY_N \<le> length (country_rows data v)"
    then have "country_rows data v \<noteq> []" by (auto simp: MIN_COUNTRY_N_def)
    then show ?thesis
      by (auto simp: country_rows_def filter_empty_conv intro: rev_image_eqI)
  qed
  have "set (filter (\<lambda>p. snd p \<ge> MIN_COUNTRY_N) (value_counts (map Country data)))
        = {(v, length (country_rows data v)) | v. MIN_COUNTRY_N \<le> length (country_rows data v)}"
    using pos by (auto simp: value_counts_set count_eq_Country)
  then show ?thesis
    unfolding get_country_info_def country_loop_map_filter
    by (simp only: set_map) blast
qed

lemma get_country_info_distinct: "distinct (map full_name (get_country_info data))"
proof -
  have "map full_name (get_country_info data)
        = map fst (filter (\<lambda>p. snd p \<ge> MIN_COUNTRY_N) (value_counts (map Country data)))"
    by (simp add: get_country_info_def country_loop_map_filter describe_country_def comp_def)
  then show ?thesis
    using value_counts_distinct [of "map Country data"] by (simp add: distinct_map_filter)
qed

lemma get_country_info_sorted:
  "sorted_wrt (\<lambda>a b. c_n a \<ge> c_n b) (get_country_info data)"
proof -
  have "sorted_wrt (\<lambda>p q. snd p \<ge> snd q)
          (filter (\<lambda>p. snd p \<ge> MIN_COUNTRY_N) (value_counts (map Country data)))"
    by (intro sorted_wrt_filter value_counts_sorted)
  then show ?thesis
    by (simp add: get_country_info_def country_loop_map_filter sorted_wrt_map
        describe_country_def)
qed

lemma country_group_cases:
  "country_group data v =
     (if \<exists>r \<in> set data. Country r = Some v \<and> is_oecd r = Some ''True'' then ''oecd''
      else if \<exists>r \<in> set data. Country r = Some v \<and> is_lmic r = Some ''True'' then ''lmic''
      else ''other'')"
  by (auto simp: country_group_def country_rows_def list_ex_iff Let_def)

text \<open>
  C4. The countries reported on their own. A country name has a descriptor exactly when
  at least 100 rows of the table carry it, and then it has one descriptor only. The
  descriptor holds that number of rows, the short name of the country as id and as
  name, and the group: "oecd" when some row of the country has the OECD flag "True",
  otherwise "lmic" when some row of the country has the LMIC flag "True", otherwise
  "other". The list runs from the largest count down.
\<close>

theorem get_country_info_threshold_group_order:
  "(\<forall>country.
      (\<exists>info \<in> set (get_country_info data). full_name info = country)
      \<longleftrightarrow> 100 \<le> length (country_rows data country))
   \<and> distinct (map full_name (get_country_info data))
   \<and> (\<forall>info \<in> set (get_country_info data).
        c_n info = length (country_rows data (full_name info))
        \<and> c_id info = country_short (full_name info)
        \<and> c_name info = country_short (full_name info)
        \<and> c_group info =
            (if \<exists>r \<in> set data. Country r = Some (full_name info) \<and> is_oecd r = Some ''True''
             then ''oecd''
             else if \<exists>r \<in> set data. Country r = Some (full_name info) \<and> is_lmic r = Some ''True''
             then ''lmic''
             else ''other''))
   \<and> sorted_wrt (\<lambda>a b. c_n a \<ge> c_n b) (get_country_info data)"
proof -
  have a: "(\<exists>info \<in> set (get_country_info data). full_name info = country)
      \<longleftrightarrow> 100 \<le> length (country_rows data country)" for country
    unfolding get_country_info_set
    by (auto simp: describe_country_def MIN_COUNTRY_N_def)
  have c: "\<forall>info \<in> set (get_country_info data).
        c_n info = length (country_rows data (full_name info))
        \<and> c_id info = country_short (full_name info)
        \<and> c_name info = country_short (full_name info)
        \<and> c_group info = country_group data (full_name info)"
    unfolding get_country_info_set by (auto simp: describe_country_def)
  show ?thesis
    using a c get_country_info_distinct get_country_info_sorted
    by (simp add: country_group_cases)
qed

theorem get_country_info_threshold_group_order_witness:
  "100 \<le> length (country_rows survey_103 ''Kenya'')
   \<and> length (country_rows survey_103 ''Chile'') = 3
   \<and> distinct (map full_name (get_country_info survey_103))
   \<and> sorted_wrt (\<lambda>a b. c_n a \<ge> c_n b) (get_country_info survey_103)
   \<and> get_country_info survey_103
       = [\<lparr> c_id = ''Kenya'', c_name = ''Kenya'', full_name = ''Kenya'',
            c_group = ''lmic'', c_n = 100 \<rparr>]"
proof -
  have k: "100 \<le> length (country_rows survey_103 ''Kenya'')" by code_simp
  have c: "length (country_rows survey_103 ''Chile'') = 3" by code_simp
  have e: "get_country_info survey_103
       = [\<lparr> c_id = ''Kenya'', c_name = ''Kenya'', full_name = ''Kenya'',
            c_group = ''lmic'', c_n = 100 \<rparr>]" by code_simp
  note t = get_country_info_threshold_group_order [of survey_103]
  have d: "distinct (map full_name (get_country_info survey_103))"
    using t by blast
  have s: "sorted_wrt (\<lambda>a b. c_n a \<ge> c_n b) (get_country_info survey_103)"
    using t by blast
  show ?thesis
    using k c d s e by blast
qed

section \<open>Properties of build_cells\<close>

lemma last_field_unique:
  assumes "bar_free s" and "bar_free t" and "xs @ ''|'' @ s = ys @ ''|'' @ t"
  shows "xs = ys \<and> s = t"
proof -
  have tw: "takeWhile (\<lambda>c. c \<noteq> CHR ''|'') (rev (zs @ ''|'' @ u)) = rev u"
    if "bar_free u" for zs u
  proof -
    have "rev (zs @ ''|'' @ u) = rev u @ (CHR ''|'' # rev zs)" by simp
    moreover have "takeWhile (\<lambda>c. c \<noteq> CHR ''|'') (rev u @ (CHR ''|'' # rev zs))
        = rev u @ takeWhile (\<lambda>c. c \<noteq> CHR ''|'') (CHR ''|'' # rev zs)"
      using that by (intro takeWhile_append2) (auto simp: bar_free_def)
    ultimately show ?thesis by simp
  qed
  have "rev s = takeWhile (\<lambda>c. c \<noteq> CHR ''|'') (rev (xs @ ''|'' @ s))"
    by (simp only: tw [OF assms(1)])
  also have "\<dots> = takeWhile (\<lambda>c. c \<noteq> CHR ''|'') (rev (ys @ ''|'' @ t))"
    by (simp only: assms(3))
  also have "\<dots> = rev t"
    by (simp only: tw [OF assms(2)])
  finally have "s = t" by simp
  then show ?thesis using assms(3) by simp
qed

lemma cell_key_inject:
  assumes "bar_free a" and "bar_free e" and "bar_free a'" and "bar_free e'"
    and "cell_key p a e = cell_key p' a' e'"
  shows "p = p' \<and> a = a' \<and> e = e'"
proof -
  have "(p @ ''|'' @ a) @ ''|'' @ e = (p' @ ''|'' @ a') @ ''|'' @ e'"
    using assms(5) by (simp add: cell_key_def)
  then have 1: "p @ ''|'' @ a = p' @ ''|'' @ a' \<and> e = e'"
    by (rule last_field_unique [OF assms(2) assms(4)])
  then have "p = p' \<and> a = a'"
    using last_field_unique [OF assms(1) assms(3)] by blast
  then show ?thesis using 1 by simp
qed

lemma bar_free_All: "bar_free ''All''"
  by (simp add: bar_free_def)

lemma bar_free_age: "a \<in> set (map snd AGE_SHORT) \<Longrightarrow> bar_free a"
  by (auto simp: AGE_SHORT_def bar_free_def)

lemma bar_free_edu: "e \<in> set EDU_SHORT_ORDER \<Longrightarrow> bar_free e"
  by (auto simp: EDU_SHORT_ORDER_def EDU_GROUPS_def bar_free_def)

lemma age_not_All: "a \<in> set (map snd AGE_SHORT) \<Longrightarrow> a \<noteq> ''All''"
  by (auto simp: AGE_SHORT_def)

lemma edu_not_All: "e \<in> set EDU_SHORT_ORDER \<Longrightarrow> e \<noteq> ''All''"
  by (auto simp: EDU_SHORT_ORDER_def EDU_GROUPS_def)

lemma age_short_of_label:
  assumes "age_short_of age_full = Inr s"
  shows "s \<in> set (map snd AGE_SHORT)"
proof -
  have "map_of AGE_SHORT age_full = Some s"
    using assms by (simp add: age_short_of_def split: option.splits)
  then have "(age_full, s) \<in> set AGE_SHORT" by (rule map_of_SomeD)
  then show ?thesis by force
qed

lemma age_short_of_total:
  assumes "age_full \<in> set AGE_GROUPS"
  shows "\<exists>s. age_short_of age_full = Inr s"
  using assms by (auto simp: AGE_GROUPS_def age_short_of_def AGE_SHORT_def)

lemma for_each_preserves:
  assumes "\<And>x s s'. P s \<Longrightarrow> body x s = Inr s' \<Longrightarrow> P s'"
    and "P s" and "for_each body xs s = Inr s'"
  shows "P s'"
  using assms(2,3)
proof (induction xs arbitrary: s)
  case Nil
  then show ?case by simp
next
  case (Cons x xs)
  then show ?case
    by (cases "body x s") (auto intro: assms(1))
qed

lemma for_each_total:
  assumes "\<And>x s. x \<in> set xs \<Longrightarrow> \<exists>s'. body x s = Inr s'"
  shows "\<exists>s'. for_each body xs s = Inr s'"
  using assms
proof (induction xs arbitrary: s)
  case Nil
  then show ?case by simp
next
  case (Cons x xs)
  obtain s1 where s1: "body x s = Inr s1"
    using Cons.prems [of x s] by auto
  have "\<exists>s'. for_each body xs s1 = Inr s'"
    by (rule Cons.IH) (simp add: Cons.prems)
  then show ?case by (simp add: s1)
qed

lemma fold_preserves:
  assumes "\<And>x s. x \<in> set xs \<Longrightarrow> P s \<Longrightarrow> P (f x s)" and "P s"
  shows "P (fold f xs s)"
  using assms by (induction xs arbitrary: s) simp_all

subsection \<open>Totality\<close>

lemma add_cells_total: "\<exists>built'. add_cells p sub built = Inr built'"
proof -
  have a: "\<exists>s'. for_each (age_step p sub) AGE_GROUPS s = Inr s'" for s
  proof (rule for_each_total)
    fix x s assume "x \<in> set AGE_GROUPS"
    then obtain l where "age_short_of x = Inr l" using age_short_of_total by blast
    then show "\<exists>s'. age_step p sub x s = Inr s'" by (simp add: age_step_def)
  qed
  have c: "\<exists>s'. for_each (combo_step p sub) AGE_GROUPS s = Inr s'" for s
  proof (rule for_each_total)
    fix x s assume "x \<in> set AGE_GROUPS"
    then obtain l where "age_short_of x = Inr l" using age_short_of_total by blast
    then show "\<exists>s'. combo_step p sub x s = Inr s'" by (simp add: combo_step_def)
  qed
  obtain s2 where s2: "for_each (age_step p sub) AGE_GROUPS
      (store_cell (cell_key p ''All'' ''All'') (aggregate_cell sub) built) = Inr s2"
    using a by blast
  show ?thesis
    unfolding add_cells_def using c by (simp add: s2)
qed

lemma build_cells_total: "\<exists>built. build_cells data infos = Inr built"
proof -
  obtain c1 where c1: "add_cells ''All'' data Map.empty = Inr c1"
    using add_cells_total by blast
  obtain c2 where c2: "add_cells ''OECD'' (oecd_data data) c1 = Inr c2"
    using add_cells_total by blast
  obtain c3 where c3: "add_cells ''LMIC'' (lmic_data data) c2 = Inr c3"
    using add_cells_total by blast
  have "\<exists>s'. for_each (country_step data) infos c3 = Inr s'"
    by (rule for_each_total) (simp add: country_step_def add_cells_total)
  then show ?thesis
    by (simp add: build_cells_def c1 c2 c3)
qed

subsection \<open>Suppression\<close>

lemma store_cell_min5_small:
  assumes "small_cells_top_only built"
  shows "small_cells_top_only (store_cell_min5 k v built)"
  using assms
  by (auto simp: small_cells_top_only_def store_cell_min5_def split: option.splits)

lemma store_cell_top_small:
  assumes "small_cells_top_only built"
  shows "small_cells_top_only (store_cell (cell_key p ''All'' ''All'') v built)"
proof (cases v)
  case None
  then show ?thesis using assms by (simp add: store_cell_def)
next
  case (Some c)
  show ?thesis
    unfolding small_cells_top_only_def
  proof (intro allI impI)
    fix p' a e c'
    assume a: "bar_free a" and e: "bar_free e"
      and l: "store_cell (cell_key p ''All'' ''All'') v built (cell_key p' a e) = Some c'"
    show "(a = ''All'' \<and> e = ''All'') \<or> 5 \<le> cell_n c'"
    proof (cases "cell_key p' a e = cell_key p ''All'' ''All''")
      case True
      then show ?thesis
        using cell_key_inject [OF a e bar_free_All bar_free_All] by blast
    next
      case False
      then have "built (cell_key p' a e) = Some c'"
        using l Some by (simp add: store_cell_def)
      then show ?thesis
        using assms a e unfolding small_cells_top_only_def by blast
    qed
  qed
qed

lemma add_cells_small:
  assumes "small_cells_top_only built" and "add_cells p sub built = Inr built'"
  shows "small_cells_top_only built'"
proof -
  let ?P = small_cells_top_only
  obtain s2 where s2: "for_each (age_step p sub) AGE_GROUPS
      (store_cell (cell_key p ''All'' ''All'') (aggregate_cell sub) built) = Inr s2"
    and s3: "for_each (combo_step p sub) AGE_GROUPS
      (fold (edu_step p sub) EDU_SHORT_ORDER s2) = Inr built'"
    using assms(2) by (auto simp: add_cells_def split: sum.splits)
  have "?P (store_cell (cell_key p ''All'' ''All'') (aggregate_cell sub) built)"
    using assms(1) by (rule store_cell_top_small)
  then have "?P s2"
    using s2
    by (rule for_each_preserves [where P = small_cells_top_only, rotated])
      (auto simp: age_step_def store_cell_min5_small split: sum.splits)
  then have "?P (fold (edu_step p sub) EDU_SHORT_ORDER s2)"
    by (rule fold_preserves [where P = small_cells_top_only, rotated]) (simp add: edu_step_def store_cell_min5_small)
  then show ?thesis
    using s3
  proof (rule for_each_preserves [where P = small_cells_top_only, rotated])
    fix x s s'
    assume s: "?P s" and st: "combo_step p sub x s = Inr s'"
    then obtain l where s': "s' = fold (combo_inner p l (age_subset sub x)) EDU_SHORT_ORDER s"
      by (auto simp: combo_step_def split: sum.splits)
    show "?P s'"
      unfolding s' using s
      by (rule fold_preserves [where P = small_cells_top_only, rotated]) (simp add: combo_inner_def store_cell_min5_small)
  qed
qed

lemma build_cells_small:
  assumes "build_cells data infos = Inr built"
  shows "small_cells_top_only built"
proof -
  obtain c1 c2 c3 where c1: "add_cells ''All'' data Map.empty = Inr c1"
    and c2: "add_cells ''OECD'' (oecd_data data) c1 = Inr c2"
    and c3: "add_cells ''LMIC'' (lmic_data data) c2 = Inr c3"
    and c4: "for_each (country_step data) infos c3 = Inr built"
    using assms by (auto simp: build_cells_def split: sum.splits)
  have "small_cells_top_only Map.empty" by (simp add: small_cells_top_only_def)
  then have "small_cells_top_only c1" using c1 by (rule add_cells_small)
  then have "small_cells_top_only c2" using c2 by (rule add_cells_small)
  then have "small_cells_top_only c3" using c3 by (rule add_cells_small)
  then show ?thesis
    using c4
    by (rule for_each_preserves [where P = small_cells_top_only, rotated]) (auto simp: country_step_def intro: add_cells_small)
qed


subsection \<open>What one call of add_cells changes\<close>

lemma add_cells_rule:
  assumes top: "\<And>s. P0 s \<Longrightarrow> P (store_cell (cell_key p ''All'' ''All'') (aggregate_cell sub) s)"
    and step: "\<And>a e v s. a \<in> set (''All'' # map snd AGE_SHORT) \<Longrightarrow>
        e \<in> set (''All'' # EDU_SHORT_ORDER) \<Longrightarrow> a \<noteq> ''All'' \<or> e \<noteq> ''All'' \<Longrightarrow>
        P s \<Longrightarrow> P (store_cell_min5 (cell_key p a e) v s)"
    and start: "P0 built"
    and run: "add_cells p sub built = Inr built'"
  shows "P built'"
proof -
  obtain s2 where s2: "for_each (age_step p sub) AGE_GROUPS
      (store_cell (cell_key p ''All'' ''All'') (aggregate_cell sub) built) = Inr s2"
    and s3: "for_each (combo_step p sub) AGE_GROUPS
      (fold (edu_step p sub) EDU_SHORT_ORDER s2) = Inr built'"
    using run by (auto simp: add_cells_def split: sum.splits)
  have "P (store_cell (cell_key p ''All'' ''All'') (aggregate_cell sub) built)"
    using start by (rule top)
  then have "P s2"
    using s2
  proof (rule for_each_preserves [where P = P, rotated])
    fix x s s'
    assume s: "P s" and st: "age_step p sub x s = Inr s'"
    then obtain l where l: "age_short_of x = Inr l"
      and s': "s' = store_cell_min5 (cell_key p l ''All'') (aggregate_cell (age_subset sub x)) s"
      by (auto simp: age_step_def split: sum.splits)
    have "l \<in> set (map snd AGE_SHORT)" using l by (rule age_short_of_label)
    then show "P s'"
      unfolding s' using s age_not_All by (intro step) auto
  qed
  then have "P (fold (edu_step p sub) EDU_SHORT_ORDER s2)"
  proof (rule fold_preserves [where P = P, rotated])
    fix x s
    assume "x \<in> set EDU_SHORT_ORDER" and "P s"
    then show "P (edu_step p sub x s)"
      unfolding edu_step_def using edu_not_All by (intro step) auto
  qed
  then show ?thesis
    using s3
  proof (rule for_each_preserves [where P = P, rotated])
    fix x s s'
    assume s: "P s" and st: "combo_step p sub x s = Inr s'"
    then obtain l where l: "age_short_of x = Inr l"
      and s': "s' = fold (combo_inner p l (age_subset sub x)) EDU_SHORT_ORDER s"
      by (auto simp: combo_step_def split: sum.splits)
    have lab: "l \<in> set (map snd AGE_SHORT)" using l by (rule age_short_of_label)
    show "P s'"
      unfolding s' using s
    proof (rule fold_preserves [where P = P, rotated])
      fix y t
      assume "y \<in> set EDU_SHORT_ORDER" and "P t"
      then show "P (combo_inner p l (age_subset sub x) y t)"
        unfolding combo_inner_def using lab age_not_All by (intro step) auto
    qed
  qed
qed

lemma label_keys_differ:
  assumes "a \<in> set (''All'' # map snd AGE_SHORT)" and "e \<in> set (''All'' # EDU_SHORT_ORDER)"
    and "a' \<in> set (''All'' # map snd AGE_SHORT)" and "e' \<in> set (''All'' # EDU_SHORT_ORDER)"
    and "(p, a, e) \<noteq> (p', a', e')"
  shows "cell_key p a e \<noteq> cell_key p' a' e'"
proof -
  have "bar_free a" "bar_free a'" using assms(1,3) bar_free_All bar_free_age by auto
  moreover have "bar_free e" "bar_free e'" using assms(2,4) bar_free_All bar_free_edu by auto
  ultimately show ?thesis using cell_key_inject assms(5) by blast
qed

lemma add_cells_keeps:
  assumes "k \<in> dom built" and "add_cells p sub built = Inr built'"
  shows "k \<in> dom built'"
  using _ _ assms
  by (rule add_cells_rule [where P = "\<lambda>s. k \<in> dom s" and ?P0.0 = "\<lambda>s. k \<in> dom s"])
    (auto simp: store_cell_def store_cell_min5_def split: option.splits)

lemma add_cells_top:
  assumes "sub \<noteq> []" and "add_cells p sub built = Inr built'"
  shows "built' (cell_key p ''All'' ''All'') = aggregate_cell sub"
proof -
  let ?K = "cell_key p ''All'' ''All''"
  obtain c where c: "aggregate_cell sub = Some c"
    using assms(1) by (auto simp: aggregate_cell_def)
  show ?thesis
    using _ _ _ assms(2)
  proof (rule add_cells_rule [where P = "\<lambda>s. s ?K = aggregate_cell sub" and ?P0.0 = "\<lambda>s. True"])
    show "store_cell ?K (aggregate_cell sub) s ?K = aggregate_cell sub" for s
      by (simp add: store_cell_def c)
  next
    fix a e v s
    assume a: "a \<in> set (''All'' # map snd AGE_SHORT)" and e: "e \<in> set (''All'' # EDU_SHORT_ORDER)"
      and ne: "a \<noteq> ''All'' \<or> e \<noteq> ''All''" and s: "s ?K = aggregate_cell sub"
    have "cell_key p a e \<noteq> ?K"
      using ne by (intro label_keys_differ [OF a e]) auto
    then show "store_cell_min5 (cell_key p a e) v s ?K = aggregate_cell sub"
      using s by (auto simp: store_cell_min5_def split: option.splits)
  qed simp
qed

lemma add_cells_other_prefix:
  assumes "p' \<noteq> p" and "add_cells p sub built = Inr built'"
    and "a' \<in> set (''All'' # map snd AGE_SHORT)" and "e' \<in> set (''All'' # EDU_SHORT_ORDER)"
  shows "built' (cell_key p' a' e') = built (cell_key p' a' e')"
proof -
  let ?K = "cell_key p' a' e'"
  show ?thesis
    using _ _ _ assms(2)
  proof (rule add_cells_rule [where P = "\<lambda>s. s ?K = built ?K" and ?P0.0 = "\<lambda>s. s ?K = built ?K"])
    fix s assume "s ?K = built ?K"
    moreover have "cell_key p ''All'' ''All'' \<noteq> ?K"
      using assms(1) by (intro label_keys_differ [OF _ _ assms(3,4)]) auto
    ultimately show "store_cell (cell_key p ''All'' ''All'') (aggregate_cell sub) s ?K = built ?K"
      by (auto simp: store_cell_def split: option.splits)
  next
    fix a e v s
    assume a: "a \<in> set (''All'' # map snd AGE_SHORT)" and e: "e \<in> set (''All'' # EDU_SHORT_ORDER)"
      and s: "s ?K = built ?K"
    have "cell_key p a e \<noteq> ?K"
      using assms(1) by (intro label_keys_differ [OF a e assms(3,4)]) auto
    then show "store_cell_min5 (cell_key p a e) v s ?K = built ?K"
      using s by (auto simp: store_cell_min5_def split: option.splits)
  qed simp
qed

lemma add_cells_top_present:
  assumes "sub \<noteq> []" and "add_cells p sub built = Inr built'"
  shows "cell_key p ''All'' ''All'' \<in> dom built'"
proof -
  obtain c where "aggregate_cell sub = Some c"
    using assms(1) by (auto simp: aggregate_cell_def)
  then show ?thesis using add_cells_top [OF assms] by auto
qed

lemma countries_keep:
  assumes "k \<in> dom built" and "for_each (country_step data) infos built = Inr built'"
  shows "k \<in> dom built'"
  using assms
proof (rule for_each_preserves [where P = "\<lambda>s. k \<in> dom s", rotated])
  fix x s s'
  assume "k \<in> dom s" and "country_step data x s = Inr s'"
  then show "k \<in> dom s'"
    unfolding country_step_def by (rule add_cells_keeps)
qed

lemma countries_top_present:
  assumes "for_each (country_step data) infos built = Inr built'"
    and "info \<in> set infos" and "country_rows data (full_name info) \<noteq> []"
  shows "cell_key (c_id info) ''All'' ''All'' \<in> dom built'"
  using assms
proof (induction infos arbitrary: built)
  case Nil
  then show ?case by simp
next
  case (Cons x infos)
  obtain s1 where s1: "country_step data x built = Inr s1"
    and rest: "for_each (country_step data) infos s1 = Inr built'"
    using Cons.prems(1) by (auto split: sum.splits)
  show ?case
  proof (cases "info \<in> set infos")
    case True
    then show ?thesis using Cons.IH [OF rest _ Cons.prems(3)] by simp
  next
    case False
    then have x: "x = info" using Cons.prems(2) by simp
    have "cell_key (c_id info) ''All'' ''All'' \<in> dom s1"
      using s1 Cons.prems(3) unfolding x country_step_def
      by (intro add_cells_top_present) auto
    then show ?thesis using rest by (rule countries_keep)
  qed
qed

text \<open>
  C1. Suppression of small cells. \<^verbatim>\<open>build_cells\<close> always returns a mapping. In it, a
  cell under a key whose age part or education part is a bracket label rather than "All"
  has at least five respondents, whatever the geography. The cell of a geography under
  "All" and "All" is present as soon as the geography has one row: for the whole table,
  for the OECD rows, for the LMIC rows and for each country of the list.
\<close>

theorem build_cells_suppression:
  "\<exists>built. build_cells data infos = Inr built
     \<and> (\<forall>p a e c. a \<in> set (''All'' # map snd AGE_SHORT) \<longrightarrow> e \<in> set (''All'' # EDU_SHORT_ORDER)
          \<longrightarrow> a \<noteq> ''All'' \<or> e \<noteq> ''All''
          \<longrightarrow> built (cell_key p a e) = Some c \<longrightarrow> 5 \<le> cell_n c)
     \<and> (data \<noteq> [] \<longrightarrow> cell_key ''All'' ''All'' ''All'' \<in> dom built)
     \<and> (oecd_data data \<noteq> [] \<longrightarrow> cell_key ''OECD'' ''All'' ''All'' \<in> dom built)
     \<and> (lmic_data data \<noteq> [] \<longrightarrow> cell_key ''LMIC'' ''All'' ''All'' \<in> dom built)
     \<and> (\<forall>info \<in> set infos. country_rows data (full_name info) \<noteq> []
          \<longrightarrow> cell_key (c_id info) ''All'' ''All'' \<in> dom built)"
proof -
  obtain built where b: "build_cells data infos = Inr built"
    using build_cells_total by blast
  obtain c1 c2 c3 where c1: "add_cells ''All'' data Map.empty = Inr c1"
    and c2: "add_cells ''OECD'' (oecd_data data) c1 = Inr c2"
    and c3: "add_cells ''LMIC'' (lmic_data data) c2 = Inr c3"
    and c4: "for_each (country_step data) infos c3 = Inr built"
    using b by (auto simp: build_cells_def split: sum.splits)
  have small: "small_cells_top_only built" using b by (rule build_cells_small)
  have p1: "\<forall>p a e c. a \<in> set (''All'' # map snd AGE_SHORT) \<longrightarrow> e \<in> set (''All'' # EDU_SHORT_ORDER)
          \<longrightarrow> a \<noteq> ''All'' \<or> e \<noteq> ''All''
          \<longrightarrow> built (cell_key p a e) = Some c \<longrightarrow> 5 \<le> cell_n c"
  proof (intro allI impI)
    fix p a e c
    assume a: "a \<in> set (''All'' # map snd AGE_SHORT)" and e: "e \<in> set (''All'' # EDU_SHORT_ORDER)"
      and ne: "a \<noteq> ''All'' \<or> e \<noteq> ''All''" and l: "built (cell_key p a e) = Some c"
    have "bar_free a" using a bar_free_All bar_free_age by auto
    moreover have "bar_free e" using e bar_free_All bar_free_edu by auto
    ultimately show "5 \<le> cell_n c"
      using small l ne unfolding small_cells_top_only_def by blast
  qed
  have p2: "data \<noteq> [] \<longrightarrow> cell_key ''All'' ''All'' ''All'' \<in> dom built"
  proof
    assume "data \<noteq> []"
    then have "cell_key ''All'' ''All'' ''All'' \<in> dom c1"
      using c1 by (rule add_cells_top_present)
    then have "cell_key ''All'' ''All'' ''All'' \<in> dom c2" using c2 by (rule add_cells_keeps)
    then have "cell_key ''All'' ''All'' ''All'' \<in> dom c3" using c3 by (rule add_cells_keeps)
    then show "cell_key ''All'' ''All'' ''All'' \<in> dom built" using c4 by (rule countries_keep)
  qed
  have p3: "oecd_data data \<noteq> [] \<longrightarrow> cell_key ''OECD'' ''All'' ''All'' \<in> dom built"
  proof
    assume "oecd_data data \<noteq> []"
    then have "cell_key ''OECD'' ''All'' ''All'' \<in> dom c2"
      using c2 by (rule add_cells_top_present)
    then have "cell_key ''OECD'' ''All'' ''All'' \<in> dom c3" using c3 by (rule add_cells_keeps)
    then show "cell_key ''OECD'' ''All'' ''All'' \<in> dom built" using c4 by (rule countries_keep)
  qed
  have p4: "lmic_data data \<noteq> [] \<longrightarrow> cell_key ''LMIC'' ''All'' ''All'' \<in> dom built"
  proof
    assume "lmic_data data \<noteq> []"
    then have "cell_key ''LMIC'' ''All'' ''All'' \<in> dom c3"
      using c3 by (rule add_cells_top_present)
    then show "cell_key ''LMIC'' ''All'' ''All'' \<in> dom built" using c4 by (rule countries_keep)
  qed
  have p5: "\<forall>info \<in> set infos. country_rows data (full_name info) \<noteq> []
          \<longrightarrow> cell_key (c_id info) ''All'' ''All'' \<in> dom built"
    using countries_top_present [OF c4] by blast
  show ?thesis
    using b p1 p2 p3 p4 p5 by blast
qed


theorem build_cells_suppression_witness:
  "build_cells small_survey [chile_info] = Inr (projr (build_cells small_survey [chile_info]))
   \<and> map_option cell_n (projr (build_cells small_survey [chile_info]) ''All|18-24|All'') = Some 5
   \<and> projr (build_cells small_survey [chile_info]) ''All|65+|All'' = None
   \<and> map_option cell_n (projr (build_cells small_survey [chile_info]) ''OECD|All|All'') = Some 1
   \<and> cell_key ''OECD'' ''All'' ''All'' \<in> dom (projr (build_cells small_survey [chile_info]))
   \<and> cell_key ''Chile'' ''All'' ''All'' \<in> dom (projr (build_cells small_survey [chile_info]))"
proof -
  obtain built where b: "build_cells small_survey [chile_info] = Inr built"
    and oecd: "oecd_data small_survey \<noteq> [] \<longrightarrow> cell_key ''OECD'' ''All'' ''All'' \<in> dom built"
    and infos: "\<forall>info \<in> set [chile_info]. country_rows small_survey (full_name info) \<noteq> []
          \<longrightarrow> cell_key (c_id info) ''All'' ''All'' \<in> dom built"
    using build_cells_suppression [of small_survey "[chile_info]"] by blast
  have pr: "projr (build_cells small_survey [chile_info]) = built" by (simp add: b)
  have o: "oecd_data small_survey \<noteq> []" by code_simp
  have c: "country_rows small_survey (full_name chile_info) \<noteq> []" by code_simp
  have i: "c_id chile_info = ''Chile''" by (simp add: chile_info_def)
  have e1: "map_option cell_n (projr (build_cells small_survey [chile_info]) ''All|18-24|All'') = Some 5"
    by code_simp
  have e2: "projr (build_cells small_survey [chile_info]) ''All|65+|All'' = None"
    by code_simp
  have e3: "map_option cell_n (projr (build_cells small_survey [chile_info]) ''OECD|All|All'') = Some 1"
    by code_simp
  show ?thesis
    using b oecd infos o c e1 e2 e3 unfolding pr by (simp add: i)
qed



lemma aggregate_cell_n:
  assumes "sub \<noteq> []"
  shows "\<exists>c. aggregate_cell sub = Some c \<and> cell_n c = length sub"
  using assms by (simp add: aggregate_cell_def)








subsection \<open>The overall cell and the total\<close>

lemma countries_other_prefix:
  assumes "for_each (country_step data) infos built = Inr built'"
    and "\<forall>info \<in> set infos. c_id info \<noteq> p'"
    and "a' \<in> set (''All'' # map snd AGE_SHORT)" and "e' \<in> set (''All'' # EDU_SHORT_ORDER)"
  shows "built' (cell_key p' a' e') = built (cell_key p' a' e')"
  using assms(1,2)
proof (induction infos arbitrary: built)
  case Nil
  then show ?case by simp
next
  case (Cons x infos)
  obtain s1 where s0: "country_step data x built = Inr s1"
    and rest: "for_each (country_step data) infos s1 = Inr built'"
    using Cons.prems(1) by (auto split: sum.splits)
  have s1: "add_cells (c_id x) (country_rows data (full_name x)) built = Inr s1"
    using s0 by (simp add: country_step_def)
  have "p' \<noteq> c_id x" using Cons.prems(2) by auto
  then have "s1 (cell_key p' a' e') = built (cell_key p' a' e')"
    using s1 assms(3,4) by (rule add_cells_other_prefix)
  moreover have "built' (cell_key p' a' e') = s1 (cell_key p' a' e')"
    using rest Cons.prems(2) by (intro Cons.IH) auto
  ultimately show ?case by simp
qed

text \<open>
  When no country of the list has the id "All", the cell under "All|All|All" counts every
  row of the table.
\<close>

lemma overall_cell_counts_every_row:
  assumes "data \<noteq> []" and "\<forall>info \<in> set infos. c_id info \<noteq> ''All''"
  shows "\<exists>built c. build_cells data infos = Inr built
           \<and> built (cell_key ''All'' ''All'' ''All'') = Some c \<and> cell_n c = length data"
proof -
  let ?K = "cell_key ''All'' ''All'' ''All''"
  obtain built where b: "build_cells data infos = Inr built"
    using build_cells_total by blast
  obtain c1 c2 c3 where c1: "add_cells ''All'' data Map.empty = Inr c1"
    and c2: "add_cells ''OECD'' (oecd_data data) c1 = Inr c2"
    and c3: "add_cells ''LMIC'' (lmic_data data) c2 = Inr c3"
    and c4: "for_each (country_step data) infos c3 = Inr built"
    using b by (auto simp: build_cells_def split: sum.splits)
  have "c1 ?K = aggregate_cell data" using assms(1) c1 by (rule add_cells_top)
  moreover have "c2 ?K = c1 ?K" using _ c2 by (rule add_cells_other_prefix) simp_all
  moreover have "c3 ?K = c2 ?K" using _ c3 by (rule add_cells_other_prefix) simp_all
  moreover have "built ?K = c3 ?K" using c4 assms(2) by (rule countries_other_prefix) simp_all
  ultimately have "built ?K = aggregate_cell data" by simp
  then show ?thesis using b aggregate_cell_n [OF assms(1)] by auto
qed








section \<open>Properties of embed_in_html\<close>

lemmas embed_eval = embed_in_html_def Let_def re_search_def match_here_def match_open_def
  PLACEHOLDER_def OPEN_HEAD_def ATTR_ID_def ATTR_TYPE_def CLOSE_TAG_def lit_def skip_spaces_def
  is_space_def write_text_def

lemma read_text_without_cr:
  assumes "13 \<notin> set doc"
  shows "read_text doc = doc"
  using assms by (induction doc rule: read_text.induct) auto

lemma write_text_lf: "write_text [10] t = t"
  by (induction t) (simp_all add: write_text_def)

lemma strip_prefix_Some:
  assumes "strip_prefix p s = Some r"
  shows "s = p @ r"
  using assms by (induction p s rule: strip_prefix.induct) (auto split: if_splits)

lemma skip_spaces_Some:
  assumes "skip_spaces s = Some r"
  shows "\<exists>ws. s = ws @ r \<and> ws \<noteq> [] \<and> (\<forall>c \<in> set ws. is_space c)"
proof -
  obtain c cs where s: "s = c # cs" and c: "is_space c" and r: "r = dropWhile is_space cs"
    using assms by (auto simp: skip_spaces_def split: list.splits if_splits)
  have "s = (c # takeWhile is_space cs) @ r"
    by (simp add: s r)
  moreover have "\<forall>x \<in> set (c # takeWhile is_space cs). is_space x"
    using c by (auto dest: set_takeWhileD)
  ultimately show ?thesis by blast
qed

text \<open>The shape of the text that group 1 matches.\<close>

lemma match_open_Some:
  assumes "match_open s = Some r"
  shows "\<exists>w1 w2. s = OPEN_HEAD @ w1 @ ATTR_ID @ w2 @ ATTR_TYPE @ r
           \<and> w1 \<noteq> [] \<and> (\<forall>c \<in> set w1. is_space c)
           \<and> w2 \<noteq> [] \<and> (\<forall>c \<in> set w2. is_space c)"
proof -
  obtain r1 r2 r3 r4 where 1: "strip_prefix OPEN_HEAD s = Some r1"
    and 2: "skip_spaces r1 = Some r2" and 3: "strip_prefix ATTR_ID r2 = Some r3"
    and 4: "skip_spaces r3 = Some r4" and 5: "strip_prefix ATTR_TYPE r4 = Some r"
    using assms by (auto simp: match_open_def split: option.splits)
  obtain w1 where w1: "r1 = w1 @ r2" "w1 \<noteq> []" "\<forall>c \<in> set w1. is_space c"
    using skip_spaces_Some [OF 2] by blast
  obtain w2 where w2: "r3 = w2 @ r4" "w2 \<noteq> []" "\<forall>c \<in> set w2. is_space c"
    using skip_spaces_Some [OF 4] by blast
  have "s = OPEN_HEAD @ w1 @ ATTR_ID @ w2 @ ATTR_TYPE @ r"
    using strip_prefix_Some [OF 1] strip_prefix_Some [OF 3] strip_prefix_Some [OF 5] w1(1) w2(1)
    by simp
  then show ?thesis using w1 w2 by blast
qed

lemma match_open_drop:
  assumes "match_open s = Some r"
  shows "r = drop (length s - length r) s \<and> length r \<le> length s"
proof -
  obtain t where "s = t @ r"
    using match_open_Some [OF assms] by (metis append.assoc)
  then show ?thesis by simp
qed

lemma find_sub_Some:
  assumes "find_sub pat s = Some j"
  shows "j \<le> length s \<and> starts_with pat (drop j s)
         \<and> (\<forall>j' < j. \<not> starts_with pat (drop j' s))"
  using assms
proof (induction s arbitrary: j)
  case Nil
  then show ?case by (auto split: if_splits)
next
  case (Cons c cs)
  show ?case
  proof (cases "starts_with pat (c # cs)")
    case True
    then show ?thesis using Cons.prems by simp
  next
    case False
    then obtain j0 where j0: "find_sub pat cs = Some j0" and j: "j = Suc j0"
      using Cons.prems by auto
    have ih: "j0 \<le> length cs \<and> starts_with pat (drop j0 cs)
         \<and> (\<forall>j' < j0. \<not> starts_with pat (drop j' cs))"
      using j0 by (rule Cons.IH)
    have "\<not> starts_with pat (drop j' (c # cs))" if "j' < j" for j'
    proof (cases j')
      case 0
      then show ?thesis using False by simp
    next
      case (Suc m)
      then show ?thesis using ih that j by simp
    qed
    then show ?thesis using ih j by simp
  qed
qed

lemma match_here_Some:
  assumes "match_here s = Some (k, j)"
  shows "k \<le> length s \<and> match_open s = Some (drop k s) \<and> find_sub CLOSE_TAG (drop k s) = Some j"
proof -
  obtain r where r: "match_open s = Some r" and f: "find_sub CLOSE_TAG r = Some j"
    and k: "k = length s - length r"
    using assms by (auto simp: match_here_def split: option.splits)
  have "r = drop k s" using match_open_drop [OF r] k by simp
  then show ?thesis using r f k by simp
qed

lemma search_from_Some:
  assumes "search_from i s = Some (a, b)"
  shows "\<exists>n k j. n < length s \<and> match_here (drop n s) = Some (k, j)
           \<and> a = i + n + k \<and> b = a + j
           \<and> (\<forall>n' < n. match_here (drop n' s) = None)"
  using assms
proof (induction s arbitrary: i)
  case Nil
  then show ?case by simp
next
  case (Cons c cs)
  show ?case
  proof (cases "match_here (c # cs)")
    case (Some kj)
    obtain k j where kj: "kj = (k, j)" by (cases kj)
    have "a = i + 0 + k \<and> b = a + j"
      using Cons.prems Some kj by simp
    moreover have "match_here (drop 0 (c # cs)) = Some (k, j)"
      using Some kj by simp
    ultimately show ?thesis by (intro exI [of _ 0] exI [of _ k] exI [of _ j]) simp
  next
    case None
    then have "search_from (Suc i) cs = Some (a, b)"
      using Cons.prems by simp
    then obtain n k j where n: "n < length cs" and m: "match_here (drop n cs) = Some (k, j)"
      and a: "a = Suc i + n + k" and b: "b = a + j"
      and first: "\<forall>n' < n. match_here (drop n' cs) = None"
      using Cons.IH by blast
    have "match_here (drop n' (c # cs)) = None" if "n' < Suc n" for n'
    proof (cases n')
      case 0
      then show ?thesis using None by simp
    next
      case (Suc m)
      then show ?thesis using first that by simp
    qed
    then show ?thesis
      using n m a b by (intro exI [of _ "Suc n"] exI [of _ k] exI [of _ j]) simp
  qed
qed

text \<open>Where the match lies: the opening tag ends at \<open>s\<close>, the closing tag starts at \<open>e\<close>.\<close>

lemma re_search_Some:
  assumes "re_search html = Some (s, e)"
  shows "s \<le> e \<and> e \<le> length html
       \<and> (\<exists>i \<le> s. match_open (drop i html) = Some (drop s html)
             \<and> (\<forall>i' < i. match_here (drop i' html) = None))
       \<and> starts_with CLOSE_TAG (drop e html)
       \<and> (\<forall>j < e - s. \<not> starts_with CLOSE_TAG (drop (s + j) html))"
proof -
  obtain n k j where n: "n < length html" and m: "match_here (drop n html) = Some (k, j)"
    and s: "s = n + k" and e: "e = s + j"
    and first: "\<forall>n' < n. match_here (drop n' html) = None"
    using search_from_Some [of 0 html s e] assms by (auto simp: re_search_def)
  have mh: "k \<le> length (drop n html) \<and> match_open (drop n html) = Some (drop k (drop n html))
      \<and> find_sub CLOSE_TAG (drop k (drop n html)) = Some j"
    using m by (rule match_here_Some)
  have d: "drop k (drop n html) = drop s html" by (simp add: s add.commute)
  have fs: "j \<le> length (drop s html) \<and> starts_with CLOSE_TAG (drop j (drop s html))
         \<and> (\<forall>j' < j. \<not> starts_with CLOSE_TAG (drop j' (drop s html)))"
    using mh unfolding d by (intro find_sub_Some) simp
  have 1: "s \<le> e" using e by simp
  have kk: "k \<le> length html - n" using mh by simp
  have jj: "j \<le> length html - s" using fs by simp
  have 2: "e \<le> length html" using kk jj n s e by linarith
  have 3: "\<exists>i \<le> s. match_open (drop i html) = Some (drop s html)
             \<and> (\<forall>i' < i. match_here (drop i' html) = None)"
    using mh first unfolding d by (intro exI [of _ n]) (simp add: s)
  have 4: "starts_with CLOSE_TAG (drop e html)"
    using fs by (simp add: e add.commute)
  have 5: "\<forall>j' < e - s. \<not> starts_with CLOSE_TAG (drop (s + j') html)"
    using fs by (simp add: e add.commute)
  show ?thesis using 1 2 3 4 5 by blast
qed

text \<open>A document that holds the placeholder as the docstring writes it is matched.\<close>

lemma match_here_placeholder: "match_here (PLACEHOLDER @ ss) \<noteq> None"
  by (simp add: embed_eval)

lemma search_from_placeholder: "search_from i (ps @ PLACEHOLDER @ ss) \<noteq> None"
proof (induction ps arbitrary: i)
  case Nil
  obtain c cs where p: "PLACEHOLDER @ ss = c # cs"
    by (cases "PLACEHOLDER @ ss") (simp_all add: PLACEHOLDER_def lit_def)
  show ?case
    using match_here_placeholder [of ss] unfolding append_Nil p by auto
next
  case (Cons a ps)
  then show ?case by (cases "match_here (a # ps @ PLACEHOLDER @ ss)") auto
qed

lemma re_search_placeholder: "re_search (ps @ PLACEHOLDER @ ss) \<noteq> None"
  unfolding re_search_def by (rule search_from_placeholder)

text \<open>A document without the text "<script" is not matched.\<close>

lemma strip_prefix_starts_with: "strip_prefix p s \<noteq> None \<Longrightarrow> starts_with p s"
  by (induction p s rule: strip_prefix.induct) (auto split: if_splits)

lemma search_from_without_script:
  assumes "\<not> str_contains OPEN_HEAD html"
  shows "search_from i html = None"
  using assms
proof (induction html arbitrary: i)
  case Nil
  then show ?case by simp
next
  case (Cons c cs)
  have "\<not> starts_with OPEN_HEAD (c # cs)" and rest: "\<not> str_contains OPEN_HEAD cs"
    using Cons.prems by simp_all
  then have "strip_prefix OPEN_HEAD (c # cs) = None"
    using strip_prefix_starts_with by blast
  then have "match_here (c # cs) = None"
    by (simp add: match_here_def match_open_def)
  then show ?case using Cons.IH [OF rest] by simp
qed

text \<open>\<^verbatim>\<open>re.search\<close> finds nothing exactly when the pattern matches at no position.\<close>

lemma search_from_None_iff:
  "search_from i s = None \<longleftrightarrow> (\<forall>n < length s. match_here (drop n s) = None)"
proof (induction s arbitrary: i)
  case Nil
  then show ?case by simp
next
  case (Cons c cs)
  show ?case
  proof (cases "match_here (c # cs)")
    case (Some kj)
    then have "search_from i (c # cs) \<noteq> None"
      by (cases kj) simp
    moreover have "\<not> (\<forall>n < length (c # cs). match_here (drop n (c # cs)) = None)"
      using Some by (auto intro: exI [of _ 0])
    ultimately show ?thesis by blast
  next
    case None
    have "(\<forall>n < length (c # cs). match_here (drop n (c # cs)) = None)
          \<longleftrightarrow> (\<forall>n < length cs. match_here (drop n cs) = None)"
    proof
      assume a: "\<forall>n < length (c # cs). match_here (drop n (c # cs)) = None"
      show "\<forall>n < length cs. match_here (drop n cs) = None"
      proof (intro allI impI)
        fix n assume "n < length cs"
        then show "match_here (drop n cs) = None" using a [rule_format, of "Suc n"] by simp
      qed
    next
      assume a: "\<forall>n < length cs. match_here (drop n cs) = None"
      show "\<forall>n < length (c # cs). match_here (drop n (c # cs)) = None"
      proof (intro allI impI)
        fix n assume n: "n < length (c # cs)"
        show "match_here (drop n (c # cs)) = None"
        proof (cases n)
          case 0
          then show ?thesis using None by simp
        next
          case (Suc m)
          then show ?thesis using a n by simp
        qed
      qed
    qed
    then show ?thesis using None Cons.IH [of "Suc i"] by simp
  qed
qed

lemma re_search_None_iff:
  "re_search html = None \<longleftrightarrow> (\<forall>n < length html. match_here (drop n html) = None)"
  unfolding re_search_def by (rule search_from_None_iff)

text \<open>
  C6. Failure of the embedding. When the pattern of the placeholder matches at no
  position of the text read from the document, \<^verbatim>\<open>embed_in_html\<close> prints its two lines
  of diagnosis, ends the run with exit status 1, and the file holds what it held before.
\<close>

theorem embed_failure_leaves_document:
  assumes "\<forall>n < length (read_text doc). match_here (drop n (read_text doc)) = None"
  shows \<open>status (embed_in_html linesep json_str html_path doc) = Exited 1
     \<and> printed (embed_in_html linesep json_str html_path doc) =
         [Line ''ERROR: Could not find <script id="survey-data"> tag in HTML file.'',
          Line ''Make sure the tag exists: <script id="survey-data" type="application/json"></script>'']
     \<and> stored (embed_in_html linesep json_str html_path doc) = doc\<close>
proof -
  have "re_search (read_text doc) = None"
    using assms by (simp only: re_search_None_iff)
  then show ?thesis
    by (simp add: embed_in_html_def Let_def)
qed

theorem embed_failure_leaves_document_witness:
  \<open>re_search (read_text plain_page) = None
   \<and> status (embed_in_html [10] (lit ''{}'') ''index.html'' plain_page) = Exited 1
   \<and> printed (embed_in_html [10] (lit ''{}'') ''index.html'' plain_page) =
         [Line ''ERROR: Could not find <script id="survey-data"> tag in HTML file.'',
          Line ''Make sure the tag exists: <script id="survey-data" type="application/json"></script>'']
   \<and> stored (embed_in_html [10] (lit ''{}'') ''index.html'' plain_page) = plain_page\<close>
proof -
  have h: "re_search (read_text plain_page) = None"
    by (simp add: embed_eval plain_page_def)
  then have n: "\<forall>n < length (read_text plain_page). match_here (drop n (read_text plain_page)) = None"
    by (simp only: re_search_None_iff)
  show ?thesis
    using embed_failure_leaves_document [OF n, of "[10]" "lit ''{}''" "''index.html''"] h
    by blast
qed

lemma write_text_append:
  "write_text linesep (a @ b) = write_text linesep a @ write_text linesep b"
  by (simp add: write_text_def)

text \<open>
  What a successful call writes. With the opening tag ending at \<open>s\<close> and the closing
  tag starting at \<open>e\<close> in the text that was read, the text that is written is the text
  that was read with the part from \<open>s\<close> to \<open>e\<close> replaced by the JSON text. When
  writing back what was read gives the file again, that is, when every line ending of
  the file is the line separator of the platform, the file keeps what it held before and
  after the replaced part.
\<close>

lemma embed_replaces_inner_text:
  assumes "re_search (read_text doc) = Some (s, e)"
  shows "status (embed_in_html linesep json_str html_path doc) = Returned
     \<and> stored (embed_in_html linesep json_str html_path doc)
         = write_text linesep (take s (read_text doc) @ json_str @ drop e (read_text doc))
     \<and> s \<le> e \<and> e \<le> length (read_text doc)
     \<and> (\<exists>i \<le> s. match_open (drop i (read_text doc)) = Some (drop s (read_text doc)))
     \<and> starts_with CLOSE_TAG (drop e (read_text doc))
     \<and> (write_text linesep (read_text doc) = doc \<longrightarrow>
          doc = write_text linesep (take s (read_text doc))
                @ write_text linesep (take (e - s) (drop s (read_text doc)))
                @ write_text linesep (drop e (read_text doc))
          \<and> stored (embed_in_html linesep json_str html_path doc)
              = write_text linesep (take s (read_text doc))
                @ write_text linesep json_str
                @ write_text linesep (drop e (read_text doc)))
     \<and> (13 \<notin> set doc \<and> linesep = [10] \<longrightarrow>
          stored (embed_in_html linesep json_str html_path doc)
            = take s doc @ json_str @ drop e doc)"
proof -
  let ?html = "read_text doc"
  have 1: "status (embed_in_html linesep json_str html_path doc) = Returned"
    using assms by (simp add: embed_in_html_def Let_def)
  have 2: "stored (embed_in_html linesep json_str html_path doc)
         = write_text linesep (take s ?html @ json_str @ drop e ?html)"
    using assms by (simp add: embed_in_html_def Let_def)
  have 3: "s \<le> e \<and> e \<le> length ?html
     \<and> (\<exists>i \<le> s. match_open (drop i ?html) = Some (drop s ?html))
     \<and> starts_with CLOSE_TAG (drop e ?html)"
    using re_search_Some [OF assms] by blast
  have "drop (e - s) (drop s ?html) = drop e ?html"
    using 3 by simp
  then have "drop s ?html = take (e - s) (drop s ?html) @ drop e ?html"
    by (metis append_take_drop_id)
  then have split: "?html = take s ?html @ take (e - s) (drop s ?html) @ drop e ?html"
    by (metis append_take_drop_id)
  have w: "write_text linesep ?html
        = write_text linesep (take s ?html)
          @ write_text linesep (take (e - s) (drop s ?html))
          @ write_text linesep (drop e ?html)"
    using arg_cong [OF split, of "write_text linesep"] by (simp only: write_text_append)
  have 4: "write_text linesep ?html = doc \<longrightarrow>
          doc = write_text linesep (take s ?html)
                @ write_text linesep (take (e - s) (drop s ?html))
                @ write_text linesep (drop e ?html)
          \<and> stored (embed_in_html linesep json_str html_path doc)
              = write_text linesep (take s ?html)
                @ write_text linesep json_str
                @ write_text linesep (drop e ?html)"
    using w 2 by (simp add: write_text_append)
  have 5: "13 \<notin> set doc \<and> linesep = [10] \<longrightarrow>
          stored (embed_in_html linesep json_str html_path doc)
            = take s doc @ json_str @ drop e doc"
    using 2 by (auto simp: read_text_without_cr write_text_lf)
  show ?thesis using 1 2 3 4 5 by blast
qed

text \<open>
  Two pages whose line endings are those of the platform: one without line breaks where
  the line separator is "\n", one with "\r\n" throughout where the line separator is
  "\r\n". Both keep everything outside the placeholder.
\<close>

lemma embed_keeps_pages_with_platform_line_endings:
  \<open>stored (embed_in_html [10] (lit ''{}'') ''index.html'' small_page)
     = lit ''<html><script id="survey-data" type="application/json">{}</script>''
   \<and> stored (embed_in_html [13, 10] (lit ''{}'') ''index.html'' crlf_page)
     = lit ''<html>'' @ [13, 10]
       @ lit ''<script id="survey-data" type="application/json">{}</script>''
       @ [13, 10] @ lit ''</html>''\<close>
  by (simp add: embed_eval small_page_def crlf_page_def)

text \<open>
  C7. Success of the embedding and the bytes of the file. The function slices the text
  it read so as to keep everything outside the placeholder, but it reads and writes the
  file in text mode, which translates line endings. The page \<open>page\<close> is matched, and
  on a platform whose line separator is "\n" the "\r\n" after the placeholder comes back
  as "\n", while on a platform whose line separator is "\r\n" the "\n" before the
  placeholder comes back as "\r\n". On neither is the file the old page with only the
  inside of the placeholder replaced.
\<close>

theorem embed_rewrites_line_endings:
  \<open>re_search (read_text page) = Some (56, 56)
   \<and> stored (embed_in_html [10] (lit ''{}'') ''index.html'' page) \<noteq> page_with_json
   \<and> stored (embed_in_html [13, 10] (lit ''{}'') ''index.html'' page) \<noteq> page_with_json
   \<and> page_with_json = take 56 page @ lit ''{}'' @ drop 56 page\<close>
  by (simp add: embed_eval page_def page_with_json_def)

end
